theory Spec2Isabelle
  imports Main "HOL-Library.AList" "HOL-Library.Monad_Syntax" "HOL-Library.Multiset"
begin

section \<open>Numbers\<close>

text \<open>
  A JavaScript number is an IEEE 754 binary64 value. The file grammar of \<open>index.js\<close>
  produces integers only, and the sum, the difference and the product of two doubles that
  are integers are integers again, so a value is an \<open>int\<close>: the integer that a finite
  double denotes. What \<open>parseInt\<close>, \<open>+\<close>, \<open>-\<close> and \<open>*\<close> return is the double nearest to
  the exact integer result, ties to the even significand: \<open>round64\<close>.

  \<^item> A double has 53 significant bits. An integer of magnitude up to \<open>2 ^ 53\<close> is a
    double. A larger one, of \<open>bits\<close> binary digits, loses its \<open>bits - 53\<close> low digits:
    \<open>round_at\<close> rounds them away, up when they are more than half of the unit that is
    kept, or exactly half of it next to an odd significand.
  \<^item> The two zeros are one value: \<open>-0 !== 0\<close> is false and \<open>`${-0}`\<close> is \<open>0\<close>, so no test
    and no output of the program tells them apart.
  \<^item> \<open>Infinity\<close> and \<open>NaN\<close> are not values of the embedding: it covers the results of
    magnitude below \<open>2 ^ 1024\<close>.
\<close>

function bits :: "int \<Rightarrow> nat" where
  "bits n = (if n \<le> 0 then 0 else Suc (bits (n div 2)))"
  by pat_completeness auto
termination
  by (relation "measure nat") auto

declare bits.simps [simp del]

definition round_at :: "nat \<Rightarrow> int \<Rightarrow> int" where
  "round_at e a =
     (let q = a div 2 ^ e;
          r = a mod 2 ^ e;
          half = 2 ^ (e - 1)
      in (if half < r \<or> (r = half \<and> odd q) then q + 1 else q) * 2 ^ e)"

definition round64 :: "int \<Rightarrow> int" where
  "round64 n = (if \<bar>n\<bar> \<le> 2 ^ 53 then n else sgn n * round_at (bits \<bar>n\<bar> - 53) \<bar>n\<bar>)"

text \<open>The integers that are numbers: those a double denotes.\<close>

definition is_number :: "int \<Rightarrow> bool" where
  "is_number n = (round64 n = n)"

text \<open>The operators \<open>+\<close>, \<open>-\<close> and \<open>*\<close> on numbers.\<close>

definition js_add :: "int \<Rightarrow> int \<Rightarrow> int" where
  "js_add a b = round64 (a + b)"

definition js_sub :: "int \<Rightarrow> int \<Rightarrow> int" where
  "js_sub a b = round64 (a - b)"

definition js_mul :: "int \<Rightarrow> int \<Rightarrow> int" where
  "js_mul a b = round64 (a * b)"

section \<open>The coordinate store of \<open>index.js\<close>\<close>

text \<open>
  The class \<open>SparseMatrix\<close> keeps \<open>rows\<close>, \<open>cols\<close> and \<open>elements\<close>, a JavaScript
  \<open>Map\<close> from the string \<open>`${row},${col}`\<close> to the value. Modelling decisions:

  \<^item> \<open>`${row},${col}`\<close> determines the two numbers and \<open>key.split(',').map(Number)\<close>
    gives them back, so a key is the pair \<open>(row, col)\<close>. The last section shows it for
    numbers of magnitude below \<open>10 ^ 21\<close>, whose text is decimal digits; the text of a
    larger number is the shortest decimal that denotes no other double.
  \<^item> A \<open>Map\<close> iterates in insertion order; \<open>set\<close> on a present key overwrites in
    place, on an absent key appends; \<open>delete\<close> removes. It is an association list
    with these three operations (\<open>Map_set\<close> is \<open>AList.update\<close>, \<open>Map_delete\<close> is
    \<open>AList.delete\<close>). A \<open>Map\<close> never holds a key twice: \<open>I3\<close> below.
\<close>

type_synonym key = "int \<times> int"
type_synonym entries = "(key \<times> int) list"

record matrix =
  rows :: int
  cols :: int
  elements :: entries

definition Map_has :: "entries \<Rightarrow> key \<Rightarrow> bool" where
  "Map_has m k = (map_of m k \<noteq> None)"

definition Map_get :: "entries \<Rightarrow> key \<Rightarrow> int option" where
  "Map_get m k = map_of m k"

definition Map_set :: "entries \<Rightarrow> key \<Rightarrow> int \<Rightarrow> entries" where
  "Map_set m k v = AList.update k v m"

definition Map_delete :: "entries \<Rightarrow> key \<Rightarrow> entries" where
  "Map_delete m k = AList.delete k m"

text \<open>
  Every \<open>throw new Error(...)\<close> is a constructor, named after the message it carries;
  \<open>ENOENT\<close> and \<open>ReadFailure\<close> are what \<open>fs.readFileSync\<close> throws, \<open>TypeError\<close> is
  what calling a method of \<open>undefined\<close> throws.
\<close>

datatype error =
    InvalidIndices int int int int
      \<comment> \<open>\<open>Invalid indices: (row, col) for matrix of size rows x cols\<close>\<close>
  | MissingDefinitions
      \<comment> \<open>\<open>Input file format is incorrect: Missing row/column definitions\<close>\<close>
  | WrongFormat
      \<comment> \<open>\<open>Input file has wrong format\<close>\<close>
  | WrongFormatA
      \<comment> \<open>\<open>Input file has a wrong format\<close> (second class, header numbers)\<close>
  | ENOENT
      \<comment> \<open>the error of \<open>readFileSync\<close> whose \<open>code\<close> is \<open>'ENOENT'\<close>\<close>
  | ReadFailure
      \<comment> \<open>any other error of \<open>readFileSync\<close>\<close>
  | TypeError
      \<comment> \<open>\<open>lines[0].startsWith\<close> on a missing line\<close>
  | FileNotFound
      \<comment> \<open>\<open>File not found: path\<close>\<close>
  | LoadingError error
      \<comment> \<open>\<open>Error loading matrix from file: message\<close>\<close>
  | AddDimensions
      \<comment> \<open>\<open>Matrix dimensions must match for addition\<close>\<close>
  | SubtractDimensions
      \<comment> \<open>\<open>Matrix dimensions must match for subtraction\<close>\<close>
  | MultiplyDimensions int int int int
      \<comment> \<open>\<open>Matrix dimensions incompatible for multiplication: r x c and r' x c'\<close>\<close>
  | IndicesOutOfBounds int int
      \<comment> \<open>\<open>Matrix indices out of bounds: (row, col)\<close> (second class)\<close>
  | MultiplyDimensions2 int int int int
      \<comment> \<open>\<open>Matrix dimensions don't match for multiplication: (r x c) * (r' x c')\<close>\<close>

text \<open>\<open>new SparseMatrix(rows, cols)\<close>, the branch of the constructor for a number.\<close>

definition new_matrix :: "int \<Rightarrow> int \<Rightarrow> matrix" where
  "new_matrix r c = \<lparr>rows = r, cols = c, elements = []\<rparr>"

definition getKey :: "int \<Rightarrow> int \<Rightarrow> key" where
  "getKey row col = (row, col)"

definition getElement :: "matrix \<Rightarrow> int \<Rightarrow> int \<Rightarrow> int" where
  "getElement m row col =
     (let k = getKey row col
      in if Map_has (elements m) k then the (Map_get (elements m) k) else 0)"

definition setElement :: "matrix \<Rightarrow> int \<Rightarrow> int \<Rightarrow> int \<Rightarrow> error + matrix" where
  "setElement m row col v =
     (if row < 0 \<or> row \<ge> rows m \<or> col < 0 \<or> col \<ge> cols m
      then Inl (InvalidIndices row col (rows m) (cols m))
      else let k = getKey row col
           in if v = 0 then Inr (m\<lparr>elements := Map_delete (elements m) k\<rparr>)
              else Inr (m\<lparr>elements := Map_set (elements m) k v\<rparr>))"

text \<open>\<open>elements.size\<close>, which the driver prints as the number of non-zero elements.\<close>

definition nonZeroCount :: "matrix \<Rightarrow> nat" where
  "nonZeroCount m = length (elements m)"

subsection \<open>The invariants of a store\<close>

definition I1 :: "matrix \<Rightarrow> bool" where
  "I1 m = list_all (\<lambda>(k, v). v \<noteq> 0) (elements m)"

definition I2 :: "matrix \<Rightarrow> bool" where
  "I2 m = list_all (\<lambda>((r, c), v). 0 \<le> r \<and> r < rows m \<and> 0 \<le> c \<and> c < cols m) (elements m)"

definition I3 :: "matrix \<Rightarrow> bool" where
  "I3 m = distinct (map fst (elements m))"

definition wf_matrix :: "matrix \<Rightarrow> bool" where
  "wf_matrix m = (I1 m \<and> I2 m \<and> I3 m)"

text \<open>A store of JavaScript numbers: its dimensions, its keys and its values are doubles.\<close>

definition numbers :: "matrix \<Rightarrow> bool" where
  "numbers m =
     (is_number (rows m) \<and> is_number (cols m)
      \<and> list_all (\<lambda>((r, c), v). is_number r \<and> is_number c \<and> is_number v) (elements m))"

section \<open>The arithmetic of the first class\<close>

text \<open>
  A \<open>for (... of ...)\<close> loop whose body may throw: the state is threaded through the
  elements in order, and the first error ends the loop.
\<close>

fun for_each :: "('a \<Rightarrow> 's \<Rightarrow> error + 's) \<Rightarrow> 'a list \<Rightarrow> 's \<Rightarrow> error + 's" where
  "for_each f [] s = Inr s"
| "for_each f (x # xs) s = (case f x s of Inl e \<Rightarrow> Inl e | Inr s' \<Rightarrow> for_each f xs s')"

definition add :: "matrix \<Rightarrow> matrix \<Rightarrow> error + matrix" where
  "add this other =
     (if rows this \<noteq> rows other \<or> cols this \<noteq> cols other then Inl AddDimensions
      else
        case for_each (\<lambda>((row, col), v) result. setElement result row col v)
               (elements this) (new_matrix (rows this) (cols this)) of
          Inl e \<Rightarrow> Inl e
        | Inr result \<Rightarrow>
            for_each (\<lambda>((row, col), v) result.
                        let currentValue = getElement result row col
                        in setElement result row col (js_add currentValue v))
              (elements other) result)"

definition subtract :: "matrix \<Rightarrow> matrix \<Rightarrow> error + matrix" where
  "subtract this other =
     (if rows this \<noteq> rows other \<or> cols this \<noteq> cols other then Inl SubtractDimensions
      else
        case for_each (\<lambda>((row, col), v) result. setElement result row col v)
               (elements this) (new_matrix (rows this) (cols this)) of
          Inl e \<Rightarrow> Inl e
        | Inr result \<Rightarrow>
            for_each (\<lambda>((row, col), v) result.
                        let currentValue = getElement result row col
                        in setElement result row col (js_sub currentValue v))
              (elements other) result)"

text \<open>
  The two index maps of \<open>multiply\<close> are \<open>Map\<close>s from a number to an array, filled by
  \<open>if (!idx.has(k)) idx.set(k, []); idx.get(k).push(x)\<close>.
\<close>

type_synonym index = "(int \<times> int list) list"

definition index_push :: "index \<Rightarrow> int \<Rightarrow> int \<Rightarrow> index" where
  "index_push idx k x =
     (let idx' = (if map_of idx k = None then AList.update k [] idx else idx)
      in AList.update k (the (map_of idx' k) @ [x]) idx')"

definition thisRowIndices :: "entries \<Rightarrow> index" where
  "thisRowIndices es = foldl (\<lambda>idx ((row, col), v). index_push idx row col) [] es"

definition otherColIndices :: "entries \<Rightarrow> index" where
  "otherColIndices es = foldl (\<lambda>idx ((row, col), v). index_push idx col row) [] es"

text \<open>
  \<open>for (let colB = 0; colB < other.cols; colB++)\<close> visits \<open>[0..other.cols - 1]\<close>: the
  counter is exact up to \<open>2 ^ 53\<close>, and the embedding does not cover a larger
  \<open>other.cols\<close>, at which the counter stops growing. \<open>otherColIndices.get(colB) || []\<close> is
  the array stored for the column, or the empty one; \<open>colsA.forEach\<close> with \<open>sum +=\<close> is a
  left fold, each product and each sum rounded.
\<close>

definition multiply_cell :: "matrix \<Rightarrow> matrix \<Rightarrow> index \<Rightarrow> int \<Rightarrow> int list \<Rightarrow> int \<Rightarrow> int" where
  "multiply_cell this other oci rowA colsA colB =
     (let rowsB = (case map_of oci colB of Some rs \<Rightarrow> rs | None \<Rightarrow> [])
      in foldl (\<lambda>sum colA.
                  if colA \<in> set rowsB
                  then js_add sum (js_mul (getElement this rowA colA) (getElement other colA colB))
                  else sum) 0 colsA)"

definition multiply :: "matrix \<Rightarrow> matrix \<Rightarrow> error + matrix" where
  "multiply this other =
     (if cols this \<noteq> rows other
      then Inl (MultiplyDimensions (rows this) (cols this) (rows other) (cols other))
      else
        let tri = thisRowIndices (elements this);
            oci = otherColIndices (elements other)
        in for_each (\<lambda>(rowA, colsA) result.
               for_each (\<lambda>colB result.
                   let sum = multiply_cell this other oci rowA colsA colB
                   in if sum \<noteq> 0 then setElement result rowA colB sum else Inr result)
                 [0..cols other - 1] result)
             tri (new_matrix (rows this) (cols other)))"

text \<open>
  The product the specification states: the sum over \<open>k\<close> in \<open>[0, cols A)\<close> of
  \<open>A(i,k) * B(k,j)\<close>, in exact arithmetic. \<open>abs_dot\<close> is the sum of the magnitudes of
  its terms: when it is at most \<open>2 ^ 53\<close>, no product and no partial sum of the terms, in
  any order, is rounded.
\<close>

definition dot :: "matrix \<Rightarrow> matrix \<Rightarrow> int \<Rightarrow> int \<Rightarrow> int" where
  "dot A B i j = (\<Sum>k\<leftarrow>[0..cols A - 1]. getElement A i k * getElement B k j)"

definition abs_dot :: "matrix \<Rightarrow> matrix \<Rightarrow> int \<Rightarrow> int \<Rightarrow> int" where
  "abs_dot A B i j = (\<Sum>k\<leftarrow>[0..cols A - 1]. \<bar>getElement A i k * getElement B k j\<bar>)"

section \<open>The second class\<close>

text \<open>
  The second \<open>SparseMatrix\<close> of the file names its fields \<open>data\<close>, \<open>numRows\<close> and
  \<open>numCols\<close>; its \<open>getElement\<close> and \<open>setElement\<close> differ from the first class in the
  error message only. Its \<open>multiply\<close> runs \<open>col2\<close> over \<open>[0..other.numCols - 1]\<close> like
  the counter of the first class; \<open>productSum\<close> starts at 0 and receives one rounded
  product with \<open>+=\<close>.
\<close>

record matrix2 =
  data :: entries
  numRows :: int
  numCols :: int


definition getElement2 :: "matrix2 \<Rightarrow> int \<Rightarrow> int \<Rightarrow> int" where
  "getElement2 m row col =
     (let k = (row, col)
      in if Map_has (data m) k then the (Map_get (data m) k) else 0)"



text \<open>The same store under the field names of the second class.\<close>

definition as_matrix2 :: "matrix \<Rightarrow> matrix2" where
  "as_matrix2 m = \<lparr>data = elements m, numRows = rows m, numCols = cols m\<rparr>"

section \<open>The example of the README\<close>

text \<open>
  \<open>matrixA.txt\<close> and \<open>matrixB.txt\<close> of the README, as the stores that loading them
  builds.
\<close>

definition matrixA :: matrix where
  "matrixA = \<lparr>rows = 2, cols = 2, elements = [((0, 0), 1), ((1, 1), 3)]\<rparr>"

definition matrixB :: matrix where
  "matrixB = \<lparr>rows = 2, cols = 2, elements = [((0, 0), 2), ((1, 0), 4)]\<rparr>"

text \<open>The \<open>1 x 1\<close> store that holds \<open>v\<close>.\<close>

definition single :: "int \<Rightarrow> matrix" where
  "single v = \<lparr>rows = 1, cols = 1, elements = [((0, 0), v)]\<rparr>"

text \<open>
  For the proofs: the columns stored in a row, and the rows stored in a column, in the
  order of the \<open>Map\<close>. They are what the two index maps of \<open>multiply\<close> hold.
\<close>

definition cols_in_row :: "entries \<Rightarrow> int \<Rightarrow> int list" where
  "cols_in_row es r = map (\<lambda>e. snd (fst e)) (filter (\<lambda>e. fst (fst e) = r) es)"

definition rows_in_col :: "entries \<Rightarrow> int \<Rightarrow> int list" where
  "rows_in_col es c = map (\<lambda>e. fst (fst e)) (filter (\<lambda>e. snd (fst e) = c) es)"

text \<open>
  For the proofs: the number that both multiplications compute for the cell \<open>(i, j)\<close>.
  The products of the entries of row \<open>i\<close> of \<open>A\<close> with column \<open>j\<close> of \<open>B\<close> are added in
  the order of the \<open>Map\<close> of \<open>A\<close>, each product and each sum rounded.
\<close>

definition cell_sum :: "matrix \<Rightarrow> matrix \<Rightarrow> int \<Rightarrow> int \<Rightarrow> int" where
  "cell_sum A B i j =
     (if 0 \<le> j \<and> j < cols B
      then foldl (\<lambda>sum k. js_add sum (js_mul (getElement A i k) (getElement B k j))) 0
             (cols_in_row (elements A) i)
      else 0)"


section \<open>Text\<close>

text \<open>
  A JavaScript string is a list of characters; the embedding covers the code units below
  256. \<open>is_ws\<close> is the class \<open>\s\<close> of regular expressions, which is also what \<open>trim\<close>
  and \<open>parseInt\<close> skip: tab, line feed, vertical tab, form feed, carriage return, space
  and no-break space. \<open>is_digit\<close> is the class \<open>\d\<close>.
\<close>

definition is_ws :: "char \<Rightarrow> bool" where
  "is_ws c = (c \<in> set [CHR 0x09, CHR 0x0A, CHR 0x0B, CHR 0x0C, CHR 0x0D, CHR '' '', CHR 0xA0])"

definition is_digit :: "char \<Rightarrow> bool" where
  "is_digit c = (c \<in> set ''0123456789'')"

text \<open>
  \<open>s.split(sep)\<close> for a separator of one character; \<open>"".split(sep)\<close> is \<open>[""]\<close>.
  A character that is not the separator goes in front of the first piece of the rest
  (there always is one, lemma \<open>split_not_Nil\<close>).
\<close>

fun split :: "char \<Rightarrow> string \<Rightarrow> string list" where
  "split sep [] = [[]]"
| "split sep (c # cs) =
     (if c = sep then [] # split sep cs
      else case split sep cs of
             l # ls \<Rightarrow> (c # l) # ls
           | [] \<Rightarrow> [[c]])"

definition trim :: "string \<Rightarrow> string" where
  "trim s = rev (dropWhile is_ws (rev (dropWhile is_ws s)))"

definition startsWith :: "string \<Rightarrow> string \<Rightarrow> bool" where
  "startsWith s p = (take (length p) s = p)"

definition endsWith :: "string \<Rightarrow> string \<Rightarrow> bool" where
  "endsWith s p = (length p \<le> length s \<and> drop (length s - length p) s = p)"

subsection \<open>Numbers and text\<close>

text \<open>
  \<open>parseInt(string, radix)\<close> as ECMAScript defines it: skip leading white space, read a
  sign, strip \<open>0x\<close> when the radix is absent, 0 or 16, read the longest prefix of digits
  of the radix; \<open>NaN\<close> (here \<open>None\<close>) when that prefix is empty, and otherwise the number
  for the signed integer that the digits denote, that is, the double nearest to it. (The
  standard lets an implementation read the decimal digits after the 20th as zeros; the
  embedding reads them all.)
\<close>

definition digit_of :: "char \<Rightarrow> nat option" where
  "digit_of c =
     (let n = (of_char c :: nat)
      in if 48 \<le> n \<and> n \<le> 57 then Some (n - 48)
         else if 97 \<le> n \<and> n \<le> 122 then Some (n - 87)
         else if 65 \<le> n \<and> n \<le> 90 then Some (n - 55)
         else None)"

definition radix_digit :: "nat \<Rightarrow> char \<Rightarrow> bool" where
  "radix_digit R c = (case digit_of c of Some d \<Rightarrow> d < R | None \<Rightarrow> False)"

definition parse_radix :: "nat \<Rightarrow> string \<Rightarrow> int option" where
  "parse_radix R s =
     (let z = takeWhile (radix_digit R) s
      in if z = [] then None
         else Some (int (foldl (\<lambda>n c. R * n + the (digit_of c)) 0 z)))"

definition parseInt :: "string \<Rightarrow> nat option \<Rightarrow> int option" where
  "parseInt str radix =
     (let s0 = dropWhile is_ws str;
          neg = (s0 \<noteq> [] \<and> hd s0 = CHR ''-'');
          s1 = (if s0 \<noteq> [] \<and> (hd s0 = CHR ''+'' \<or> hd s0 = CHR ''-'') then tl s0 else s0);
          stripPrefix = (radix = None \<or> radix = Some 0 \<or> radix = Some 16);
          hex = (stripPrefix \<and> (take 2 s1 = ''0x'' \<or> take 2 s1 = ''0X''));
          R = (if hex then 16
               else case radix of None \<Rightarrow> 10 | Some r \<Rightarrow> if r = 0 then 10 else r);
          s2 = (if hex then drop 2 s1 else s1)
      in if R < 2 \<or> 36 < R then None
         else map_option (\<lambda>n. round64 (if neg then - n else n)) (parse_radix R s2))"

text \<open>
  The decimal digits of a natural number, and of an integer, after \<open>-\<close> when it is
  negative.
\<close>

definition digit_char :: "nat \<Rightarrow> char" where
  "digit_char d = ''0123456789'' ! d"

fun show_nat :: "nat \<Rightarrow> string" where
  "show_nat n = (if n < 10 then [digit_char n] else show_nat (n div 10) @ [digit_char (n mod 10)])"

declare show_nat.simps [simp del]

definition show_int :: "int \<Rightarrow> string" where
  "show_int i = (if i < 0 then CHR ''-'' # show_nat (nat (- i)) else show_nat (nat i))"

text \<open>
  \<open>`${n}`\<close> is \<open>Number::toString\<close>. For a positive double \<open>x\<close> it takes the decimal
  \<open>s * 10 ^ j\<close> with the fewest digits \<open>s\<close> that denotes a number whose nearest double is
  \<open>x\<close>; among several such, the one closest to \<open>x\<close>, and of two equally close the one with
  \<open>s\<close> even. With at most 21 digits before the decimal point it prints that integer in
  full, with more it prints the digits of \<open>s\<close>, a point after the first, and \<open>e+\<close> with
  the exponent.

  \<open>shortest_at x unit\<close> is the choice among the multiples of \<open>unit\<close>: only the two around
  \<open>x\<close> can be nearest to it. \<open>shortest_from\<close> tries the powers of ten from a large one
  down to 1, so that the first multiple found has the fewest digits. For \<open>x\<close> up to
  \<open>2 ^ 53\<close> the doubles around \<open>x\<close> are at distance 1 or less, only \<open>x\<close> itself is
  printed as \<open>x\<close>, and the text is the decimal digits of \<open>x\<close>.
\<close>

definition shortest_at :: "int \<Rightarrow> int \<Rightarrow> int option" where
  "shortest_at x unit =
     (let lo = (x div unit) * unit;
          hi = lo + unit;
          vl = (round64 lo = x);
          vh = (round64 hi = x)
      in if vl \<and> vh
         then Some (if x - lo < hi - x then lo
                    else if hi - x < x - lo then hi
                    else if even (lo div unit) then lo else hi)
         else if vl then Some lo
         else if vh then Some hi
         else None)"

fun shortest_from :: "int \<Rightarrow> nat \<Rightarrow> int" where
  "shortest_from x j =
     (case shortest_at x (10 ^ j) of
        Some v \<Rightarrow> v
      | None \<Rightarrow> if j = 0 then x else shortest_from x (j - 1))"

declare shortest_from.simps [simp del]

definition shortest :: "int \<Rightarrow> int" where
  "shortest x = shortest_from x (length (show_nat (nat x)))"

definition exponent_text :: "int \<Rightarrow> string" where
  "exponent_text v =
     (let ds = show_nat (nat v);
          s = rev (dropWhile (\<lambda>c. c = CHR ''0'') (rev ds))
      in hd s # (if tl s = [] then [] else CHR ''.'' # tl s)
           @ ''e+'' @ show_nat (length ds - 1))"

definition show_number :: "int \<Rightarrow> string" where
  "show_number x =
     (if x \<le> 2 ^ 53 then show_nat (nat x)
      else let v = shortest x
           in if v < 10 ^ 21 then show_nat (nat v) else exponent_text v)"

definition number_text :: "int \<Rightarrow> string" where
  "number_text i = (if i < 0 then CHR ''-'' # show_number (- i) else show_number i)"

subsection \<open>The regular expressions of \<open>loadFromFile\<close>\<close>

text \<open>
  \<open>/^\s*rows\s*=\s*(\d+)\s*$/\<close> and
  \<open>/^\s*\(\s*(\d+)\s*,\s*(\d+)\s*,\s*(-?\d+)\s*\)\s*$/\<close> are sequences of four kinds of
  pieces: \<open>\s*\<close> (\<open>skip_ws\<close>), a literal (\<open>literal\<close>), \<open>(\d+)\<close> (\<open>digits\<close>) and
  \<open>(-?\d+)\<close> (\<open>signed_digits\<close>), between \<open>^\<close> and \<open>$\<close>. In both, the piece after
  each \<open>\s*\<close>, \<open>\d+\<close> or \<open>-?\<close> starts with a character outside that class, so the
  longest match of each piece is the only one that can lead to a match of the whole, and
  matching from left to right without backtracking decides the expression. A match
  returns its capture groups.
\<close>

definition skip_ws :: "string \<Rightarrow> string" where
  "skip_ws s = dropWhile is_ws s"

fun literal :: "string \<Rightarrow> string \<Rightarrow> string option" where
  "literal [] s = Some s"
| "literal (p # ps) [] = None"
| "literal (p # ps) (c # cs) = (if p = c then literal ps cs else None)"

definition digits :: "string \<Rightarrow> (string \<times> string) option" where
  "digits s =
     (let ds = takeWhile is_digit s
      in if ds = [] then None else Some (ds, dropWhile is_digit s))"

definition signed_digits :: "string \<Rightarrow> (string \<times> string) option" where
  "signed_digits s =
     (case s of
        [] \<Rightarrow> None
      | c # cs \<Rightarrow>
          if c = CHR ''-'' then map_option (\<lambda>(ds, r). (CHR ''-'' # ds, r)) (digits cs)
          else digits s)"

definition match_header :: "string \<Rightarrow> string \<Rightarrow> string option" where
  "match_header name line =
     do { s1 \<leftarrow> literal name (skip_ws line);
          s2 \<leftarrow> literal ''='' (skip_ws s1);
          (ds, s3) \<leftarrow> digits (skip_ws s2);
          if skip_ws s3 = [] then Some ds else None }"

definition match_element :: "string \<Rightarrow> (string \<times> string \<times> string) option" where
  "match_element line =
     do { s1 \<leftarrow> literal ''('' (skip_ws line);
          (a, s2) \<leftarrow> digits (skip_ws s1);
          s3 \<leftarrow> literal '','' (skip_ws s2);
          (b, s4) \<leftarrow> digits (skip_ws s3);
          s5 \<leftarrow> literal '','' (skip_ws s4);
          (c, s6) \<leftarrow> signed_digits (skip_ws s5);
          s7 \<leftarrow> literal '')'' (skip_ws s6);
          if skip_ws s7 = [] then Some (a, b, c) else None }"

section \<open>Loading and printing, first class\<close>

text \<open>
  What \<open>loadFromFile\<close> writes with \<open>console.error\<close> before it throws: the two header
  lines; the number and text of a line that does not match; the numbers of a line whose
  fields are not numbers; the line number, row, column and dimensions of an entry out of
  bounds; the message of an error it wraps.
\<close>

datatype console =
    HeaderFailure string string
  | LineParsingError nat string
  | InvalidNumberFormat nat "int option" "int option" "int option"
  | IndexOutOfBoundsAt nat int int int int
  | ErrorDetails error

type_synonym failure = "console list \<times> error"

text \<open>
  The loop \<open>for (let i = 2; i < lines.length; i++)\<close>, with \<open>i\<close> and the lines from
  \<open>lines[i]\<close> on. A failure is what was written to the console and the error thrown.
\<close>

fun load_lines :: "matrix \<Rightarrow> nat \<Rightarrow> string list \<Rightarrow> failure + matrix" where
  "load_lines this i [] = Inr this"
| "load_lines this i (line # rest) =
     (case match_element line of
        None \<Rightarrow> Inl ([LineParsingError (i + 1) line], WrongFormat)
      | Some (a, b, c) \<Rightarrow>
          let row = parseInt a (Some 10);
              col = parseInt b (Some 10);
              v = parseInt c (Some 10)
          in if row = None \<or> col = None \<or> v = None
             then Inl ([InvalidNumberFormat (i + 1) row col v], WrongFormat)
             else if the row < 0 \<or> the row \<ge> rows this \<or> the col < 0 \<or> the col \<ge> cols this
             then Inl ([IndexOutOfBoundsAt (i + 1) (the row) (the col) (rows this) (cols this)],
                       WrongFormat)
             else case setElement this (the row) (the col) (the v) of
                    Inl e \<Rightarrow> Inl ([], e)
                  | Inr this' \<Rightarrow> load_lines this' (i + 1) rest)"

text \<open>
  The body of the \<open>try\<close>. The header captures are strings of digits, for which
  \<open>parseInt\<close> is a number (lemma \<open>match_header_parseInt\<close>), as are the captures of an
  entry (lemma \<open>match_element_parseInt\<close>), so the \<open>isNaN\<close> branch of the loop is never
  taken.
\<close>

definition load_text :: "string \<Rightarrow> failure + matrix" where
  "load_text content =
     (let lines = filter (\<lambda>line. length line > 0) (map trim (split CHR 0x0A content))
      in if length lines < 2 then Inl ([], MissingDefinitions)
         else
           let rowsMatch = match_header ''rows'' (lines ! 0);
               colsMatch = match_header ''cols'' (lines ! 1)
           in if rowsMatch = None \<or> colsMatch = None
              then Inl ([HeaderFailure (lines ! 0) (lines ! 1)], WrongFormat)
              else load_lines
                     \<lparr>rows = the (parseInt (the rowsMatch) (Some 10)),
                      cols = the (parseInt (the colsMatch) (Some 10)),
                      elements = []\<rparr>
                     2 (drop 2 lines))"

text \<open>
  \<open>loadFromFile\<close>, given what \<open>fs.readFileSync(filePath, 'utf8')\<close> does: it returns the
  text or throws \<open>ENOENT\<close> or \<open>ReadFailure\<close>. The \<open>catch\<close> turns \<open>ENOENT\<close> into
  \<open>FileNotFound\<close>, rethrows \<open>WrongFormat\<close>, and wraps every other error after writing it
  to the console.
\<close>

definition catch_load :: "failure \<Rightarrow> failure" where
  "catch_load f =
     (case f of (out, e) \<Rightarrow>
        if e = ENOENT then (out, FileNotFound)
        else if e = WrongFormat then (out, e)
        else (out @ [ErrorDetails e], LoadingError e))"

definition loadFromFile :: "error + string \<Rightarrow> failure + matrix" where
  "loadFromFile file =
     (case file of
        Inl e \<Rightarrow> Inl (catch_load ([], e))
      | Inr content \<Rightarrow>
          (case load_text content of
             Inl f \<Rightarrow> Inl (catch_load f)
           | Inr this \<Rightarrow> Inr this))"

text \<open>
  \<open>toString\<close>: the entries of the \<open>Map\<close>, sorted with the comparator
  \<open>a.row !== b.row ? a.row - b.row : a.col - b.col\<close>. \<open>Array.prototype.sort\<close> is stable;
  it is modelled by insertion from the right, which is stable too. Every number is
  printed by a template literal.
\<close>

definition compare_entries :: "key \<times> int \<Rightarrow> key \<times> int \<Rightarrow> int" where
  "compare_entries a b =
     (if fst (fst a) \<noteq> fst (fst b) then js_sub (fst (fst a)) (fst (fst b))
      else js_sub (snd (fst a)) (snd (fst b)))"

fun insert_entry :: "key \<times> int \<Rightarrow> entries \<Rightarrow> entries" where
  "insert_entry x [] = [x]"
| "insert_entry x (y # ys) =
     (if compare_entries x y \<le> 0 then x # y # ys else y # insert_entry x ys)"

definition sort_entries :: "entries \<Rightarrow> entries" where
  "sort_entries es = foldr insert_entry es []"

definition entry_line :: "key \<times> int \<Rightarrow> string" where
  "entry_line e =
     ''('' @ number_text (fst (fst e)) @ '', '' @ number_text (snd (fst e)) @ '', ''
       @ number_text (snd e) @ '')'' @ [CHR 0x0A]"

definition toString :: "matrix \<Rightarrow> string" where
  "toString this =
     ''rows='' @ number_text (rows this) @ [CHR 0x0A]
       @ ''cols='' @ number_text (cols this) @ [CHR 0x0A]
       @ concat (map entry_line (sort_entries (elements this)))"

text \<open>
  For the proofs: the number a string of decimal digits denotes; the line of an entry
  whose three numbers are printed as their decimal digits, without its line feed; the
  order \<open>toString\<close> emits entries in, by row and then by column; the integer whose
  decimal digits are the text of a number of magnitude below \<open>10 ^ 21\<close>, and an entry of
  such integers.
\<close>

definition plain :: "int \<Rightarrow> int" where
  "plain n = (if \<bar>n\<bar> \<le> 2 ^ 53 then n else sgn n * shortest \<bar>n\<bar>)"

definition plain_entry :: "key \<times> int \<Rightarrow> key \<times> int" where
  "plain_entry e = ((plain (fst (fst e)), plain (snd (fst e))), plain (snd e))"

definition printable :: "int \<Rightarrow> bool" where
  "printable n = (is_number n \<and> \<bar>n\<bar> < 10 ^ 21)"

definition digits_value :: "string \<Rightarrow> nat" where
  "digits_value z = foldl (\<lambda>n c. 10 * n + the (digit_of c)) 0 z"

definition entry_text :: "key \<times> int \<Rightarrow> string" where
  "entry_text e =
     ''('' @ show_int (fst (fst e)) @ '', '' @ show_int (snd (fst e)) @ '', ''
       @ show_int (snd e) @ '')''"

definition row_then_col :: "key \<times> int \<Rightarrow> key \<times> int \<Rightarrow> bool" where
  "row_then_col a b =
     (fst (fst a) < fst (fst b) \<or> (fst (fst a) = fst (fst b) \<and> snd (fst a) \<le> snd (fst b)))"

section \<open>Loading, second class\<close>

text \<open>
  \<open>_loadFromFile\<close> of the second class. It tests the header with \<open>startsWith\<close>, reads
  its numbers with \<open>parseInt(lines[k].split('=')[1])\<close> (no radix), removes all white
  space from an entry line, tests its parentheses, splits what is between them at the
  commas and reads three numbers. The inner \<open>try\<close> turns every error of an entry,
  the one for indices out of bounds too, into \<open>WrongFormat\<close>. A value is stored by
  \<open>this.data.set\<close> only when it is not 0; \<open>setElement\<close> is not called.
\<close>

definition entry2 :: "matrix2 \<Rightarrow> string list \<Rightarrow> error + matrix2" where
  "entry2 this parts =
     (let row = parseInt (parts ! 0) None;
          col = parseInt (parts ! 1) None;
          v = parseInt (parts ! 2) None
      in if row = None \<or> col = None \<or> v = None then Inl WrongFormat
         else if the row < 0 \<or> the row \<ge> numRows this \<or> the col < 0 \<or> the col \<ge> numCols this
         then Inl (IndicesOutOfBounds (the row) (the col))
         else if the v \<noteq> 0
         then Inr (this\<lparr>data := Map_set (data this) (the row, the col) (the v)\<rparr>)
         else Inr this)"

fun load_lines2 :: "matrix2 \<Rightarrow> string list \<Rightarrow> error + matrix2" where
  "load_lines2 this [] = Inr this"
| "load_lines2 this (l # rest) =
     (let line = filter (\<lambda>c. \<not> is_ws c) l
      in if \<not> startsWith line ''('' \<or> \<not> endsWith line '')'' then Inl WrongFormat
         else
           let content = butlast (tl line);
               parts = split CHR '','' content
           in if length parts \<noteq> 3 then Inl WrongFormat
              else case entry2 this parts of
                     Inl e \<Rightarrow> Inl WrongFormat
                   | Inr this' \<Rightarrow> load_lines2 this' rest)"

definition load_text2 :: "string \<Rightarrow> error + matrix2" where
  "load_text2 fileContent =
     (let lines = filter (\<lambda>line. line \<noteq> []) (map trim (split CHR 0x0A fileContent))
      in if lines = [] then Inl TypeError
         else if \<not> startsWith (lines ! 0) ''rows='' then Inl WrongFormat
         else if length lines < 2 then Inl TypeError
         else if \<not> startsWith (lines ! 1) ''cols='' then Inl WrongFormat
         else
           let r = parseInt (split CHR ''='' (lines ! 0) ! 1) None;
               c = parseInt (split CHR ''='' (lines ! 1) ! 1) None
           in if r = None \<or> c = None then Inl WrongFormatA
              else load_lines2 \<lparr>data = [], numRows = the r, numCols = the c\<rparr> (drop 2 lines))"

definition loadFromFile2 :: "error + string \<Rightarrow> error + matrix2" where
  "loadFromFile2 file =
     (case file of
        Inl e \<Rightarrow> if e = ENOENT then Inl FileNotFound else Inl e
      | Inr fileContent \<Rightarrow>
          (case load_text2 fileContent of
             Inl e \<Rightarrow> if e = ENOENT then Inl FileNotFound else Inl e
           | Inr this \<Rightarrow> Inr this))"

section \<open>Files\<close>

text \<open>
  The output the README shows for adding \<open>matrixA.txt\<close> and \<open>matrixB.txt\<close>, and the
  text \<open>toString\<close> produces for that sum.
\<close>

definition readme_output :: string where
  "readme_output = ''rows=2\<newline>cols=2\<newline>(0,0,3)\<newline>(1,0,4)\<newline>''"

definition sum_output :: string where
  "sum_output = ''rows=2\<newline>cols=2\<newline>(0, 0, 3)\<newline>(1, 0, 4)\<newline>(1, 1, 3)\<newline>''"

text \<open>
  The \<open>lines\<close> array of \<open>loadFromFile\<close>, and what the loop finds in one line for a
  matrix of \<open>R\<close> rows and \<open>C\<close> columns: a triple (the line matches the expression), a
  triple within the bounds, a triple out of bounds.
\<close>

definition text_lines :: "string \<Rightarrow> string list" where
  "text_lines content = filter (\<lambda>line. length line > 0) (map trim (split CHR 0x0A content))"

definition triple :: "string \<Rightarrow> (int \<times> int \<times> int) option" where
  "triple line =
     (case match_element line of
        None \<Rightarrow> None
      | Some (a, b, c) \<Rightarrow>
          Some (the (parseInt a (Some 10)), the (parseInt b (Some 10)), the (parseInt c (Some 10))))"

definition in_bounds :: "int \<Rightarrow> int \<Rightarrow> string \<Rightarrow> bool" where
  "in_bounds R C line =
     (case triple line of
        None \<Rightarrow> False
      | Some (row, col, v) \<Rightarrow> 0 \<le> row \<and> row < R \<and> 0 \<le> col \<and> col < C)"

definition out_of_bounds :: "int \<Rightarrow> int \<Rightarrow> string \<Rightarrow> bool" where
  "out_of_bounds R C line =
     (case triple line of
        None \<Rightarrow> False
      | Some (row, col, v) \<Rightarrow> row < 0 \<or> row \<ge> R \<or> col < 0 \<or> col \<ge> C)"

text \<open>
  The value of the last line of \<open>ls\<close> that is a triple for the coordinate \<open>(r, c)\<close>,
  if there is one.
\<close>

definition last_value :: "string list \<Rightarrow> int \<Rightarrow> int \<Rightarrow> int option" where
  "last_value ls r c =
     (case filter (\<lambda>t. fst t = r \<and> fst (snd t) = c) (map (\<lambda>l. the (triple l)) ls) of
        [] \<Rightarrow> None
      | t # ts \<Rightarrow> Some (snd (snd (last (t # ts)))))"

text \<open>A file with the entry \<open>(0,0,5)\<close> and then \<open>(0,0,0)\<close> for the same coordinate.\<close>

definition overwritten_by_zero :: string where
  "overwritten_by_zero = ''rows=1\<newline>cols=1\<newline>(0,0,5)\<newline>(0,0,0)\<newline>''"

section \<open>The methods on a heap of objects\<close>

text \<open>
  \<open>add\<close>, \<open>subtract\<close> and \<open>multiply\<close> receive references to objects that they could
  alias or mutate. To state what they do to their operands, the objects live in a heap:
  a list of stores, a reference being an index, \<open>new SparseMatrix(rows, cols)\<close>
  allocating at the end. \<open>setElement\<close> is the only statement that writes, and it writes
  the object it is called on. A method returns the heap it leaves, also when it throws.
  The \<open>for ... of\<close> loops of \<open>add\<close> and \<open>subtract\<close> run over the entries that the operand
  holds when the loop starts.
\<close>

type_synonym ref = nat
type_synonym heap = "matrix list"

definition heap_new :: "heap \<Rightarrow> int \<Rightarrow> int \<Rightarrow> heap \<times> ref" where
  "heap_new h r c = (h @ [new_matrix r c], length h)"

definition heap_getElement :: "heap \<Rightarrow> ref \<Rightarrow> int \<Rightarrow> int \<Rightarrow> int" where
  "heap_getElement h this row col = getElement (h ! this) row col"

definition heap_setElement :: "heap \<Rightarrow> ref \<Rightarrow> int \<Rightarrow> int \<Rightarrow> int \<Rightarrow> heap \<times> (error + unit)" where
  "heap_setElement h this row col v =
     (case setElement (h ! this) row col v of
        Inl e \<Rightarrow> (h, Inl e)
      | Inr m \<Rightarrow> (h[this := m], Inr ()))"

fun heap_for_each ::
  "('a \<Rightarrow> heap \<Rightarrow> heap \<times> (error + unit)) \<Rightarrow> 'a list \<Rightarrow> heap \<Rightarrow> heap \<times> (error + unit)" where
  "heap_for_each f [] h = (h, Inr ())"
| "heap_for_each f (x # xs) h =
     (case f x h of
        (h', Inl e) \<Rightarrow> (h', Inl e)
      | (h', Inr u) \<Rightarrow> heap_for_each f xs h')"

definition heap_add :: "heap \<Rightarrow> ref \<Rightarrow> ref \<Rightarrow> heap \<times> (error + ref)" where
  "heap_add h this other =
     (if rows (h ! this) \<noteq> rows (h ! other) \<or> cols (h ! this) \<noteq> cols (h ! other)
      then (h, Inl AddDimensions)
      else
        case heap_new h (rows (h ! this)) (cols (h ! this)) of (h1, result) \<Rightarrow>
        case heap_for_each (\<lambda>((row, col), v) h. heap_setElement h result row col v)
               (elements (h1 ! this)) h1 of
          (h2, Inl e) \<Rightarrow> (h2, Inl e)
        | (h2, Inr u) \<Rightarrow>
            (case heap_for_each (\<lambda>((row, col), v) h.
                      let currentValue = heap_getElement h result row col
                      in heap_setElement h result row col (js_add currentValue v))
                    (elements (h2 ! other)) h2 of
               (h3, Inl e) \<Rightarrow> (h3, Inl e)
             | (h3, Inr u) \<Rightarrow> (h3, Inr result)))"

definition heap_subtract :: "heap \<Rightarrow> ref \<Rightarrow> ref \<Rightarrow> heap \<times> (error + ref)" where
  "heap_subtract h this other =
     (if rows (h ! this) \<noteq> rows (h ! other) \<or> cols (h ! this) \<noteq> cols (h ! other)
      then (h, Inl SubtractDimensions)
      else
        case heap_new h (rows (h ! this)) (cols (h ! this)) of (h1, result) \<Rightarrow>
        case heap_for_each (\<lambda>((row, col), v) h. heap_setElement h result row col v)
               (elements (h1 ! this)) h1 of
          (h2, Inl e) \<Rightarrow> (h2, Inl e)
        | (h2, Inr u) \<Rightarrow>
            (case heap_for_each (\<lambda>((row, col), v) h.
                      let currentValue = heap_getElement h result row col
                      in heap_setElement h result row col (js_sub currentValue v))
                    (elements (h2 ! other)) h2 of
               (h3, Inl e) \<Rightarrow> (h3, Inl e)
             | (h3, Inr u) \<Rightarrow> (h3, Inr result)))"

definition heap_multiply :: "heap \<Rightarrow> ref \<Rightarrow> ref \<Rightarrow> heap \<times> (error + ref)" where
  "heap_multiply h this other =
     (if cols (h ! this) \<noteq> rows (h ! other)
      then (h, Inl (MultiplyDimensions (rows (h ! this)) (cols (h ! this))
                      (rows (h ! other)) (cols (h ! other))))
      else
        case heap_new h (rows (h ! this)) (cols (h ! other)) of (h1, result) \<Rightarrow>
        let tri = thisRowIndices (elements (h1 ! this));
            oci = otherColIndices (elements (h1 ! other))
        in case heap_for_each (\<lambda>(rowA, colsA) h.
                   heap_for_each (\<lambda>colB h.
                       let sum = multiply_cell (h ! this) (h ! other) oci rowA colsA colB
                       in if sum \<noteq> 0 then heap_setElement h result rowA colB sum
                          else (h, Inr ()))
                     [0..cols (h ! other) - 1] h)
                 tri h1 of
             (h2, Inl e) \<Rightarrow> (h2, Inl e)
           | (h2, Inr u) \<Rightarrow> (h2, Inr result))"

text \<open>
  For the proofs: the command \<open>c\<close> on heaps does to the object at \<open>r\<close> what \<open>g\<close> does
  to a store, and touches nothing else.
\<close>

definition acts_on ::
  "ref \<Rightarrow> (heap \<Rightarrow> heap \<times> (error + unit)) \<Rightarrow> (matrix \<Rightarrow> error + matrix) \<Rightarrow> heap \<Rightarrow> bool" where
  "acts_on r c g h =
     (\<exists>m'. c h = (h[r := m'], map_sum id (\<lambda>m. ()) (g (h ! r)))
          \<and> (\<forall>m. g (h ! r) = Inr m \<longrightarrow> m' = m))"

text \<open>
  The key of the source, \<open>`${row},${col}`\<close>, as text. For numbers of magnitude below
  \<open>10 ^ 21\<close>, lemmas \<open>key_string_inject\<close> and \<open>key_string_parts\<close> show that it
  determines the pair, and that reading the two pieces between which the comma stands
  gives back the row and the column (on their decimal digits \<open>Number\<close> reads what
  \<open>parseInt\<close> reads): the reason why \<open>getKey\<close> can return the pair.
\<close>

definition key_string :: "int \<Rightarrow> int \<Rightarrow> string" where
  "key_string row col = number_text row @ '','' @ number_text col"

section \<open>Facts about numbers\<close>

lemma bits_pos: "0 < a \<Longrightarrow> bits a = Suc (bits (a div 2))"
  by (subst bits.simps) simp

lemma bits_nonpos: "a \<le> 0 \<Longrightarrow> bits a = 0"
  by (subst bits.simps) simp

lemma bits_bounds: "0 < a \<Longrightarrow> 2 ^ (bits a - 1) \<le> a \<and> a < 2 ^ bits a"
proof (induction a rule: bits.induct)
  case (1 n)
  show ?case
  proof (cases "n = 1")
    case True
    then show ?thesis by (simp add: bits_pos bits_nonpos)
  next
    case False
    with "1.prems" have h: "0 < n div 2" by simp
    from "1.IH" "1.prems" h have ih: "2 ^ (bits (n div 2) - 1) \<le> n div 2" "n div 2 < 2 ^ bits (n div 2)"
      by simp_all
    have b: "bits n = Suc (bits (n div 2))" using "1.prems" by (rule bits_pos)
    have p: "0 < bits (n div 2)" using h by (simp add: bits_pos)
    then obtain k where k: "bits (n div 2) = Suc k" by (cases "bits (n div 2)") simp_all
    define P :: int where "P = 2 ^ k"
    have "P \<le> n div 2" "n div 2 < 2 * P" using ih unfolding k P_def by simp_all
    then have "2 * P \<le> n \<and> n < 4 * P" by linarith
    then show ?thesis unfolding b k P_def by simp
  qed
qed

lemma bits_unique:
  assumes "2 ^ k \<le> a" "a < 2 ^ Suc k"
  shows "bits a = Suc k"
proof -
  have pos: "0 < a" using assms(1) by (smt (verit) zero_less_power)
  from bits_bounds [OF pos] have lo: "(2::int) ^ (bits a - 1) \<le> a" and hi: "a < 2 ^ bits a" by simp_all
  have "(2::int) ^ k < 2 ^ bits a" using assms(1) hi by linarith
  then have 1: "k < bits a" by simp
  have "(2::int) ^ (bits a - 1) < 2 ^ Suc k" using lo assms(2) by linarith
  then have 2: "bits a - 1 < Suc k" by (rule power_less_imp_less_exp [rotated]) simp
  from 1 2 show ?thesis by simp
qed

lemma round_at_exact: "a mod 2 ^ e = 0 \<Longrightarrow> round_at e a = a"
proof -
  assume a: "a mod 2 ^ e = 0"
  have "(0::int) < 2 ^ (e - 1)" by simp
  then have "\<not> (2 ^ (e - 1) < (0::int))" "(0::int) \<noteq> 2 ^ (e - 1)" by linarith+
  moreover have "a div 2 ^ e * 2 ^ e = a" using a div_mult_mod_eq [of a "2 ^ e"] by simp
  ultimately show ?thesis using a by (simp add: round_at_def Let_def)
qed

lemma round_at_cases:
  "round_at e a = (a div 2 ^ e) * 2 ^ e \<or> round_at e a = (a div 2 ^ e + 1) * 2 ^ e"
  by (simp add: round_at_def Let_def)

lemma big_parts:
  assumes "2 ^ 53 < a"
  shows "bits a = 53 + (bits a - 53)" "1 \<le> bits a - 53"
    "2 ^ 52 \<le> a div 2 ^ (bits a - 53)" "a div 2 ^ (bits a - 53) < 2 ^ 53"
proof -
  have pos: "0 < a" using assms by simp
  from bits_bounds [OF pos] have lo: "(2::int) ^ (bits a - 1) \<le> a" and hi: "a < 2 ^ bits a"
    by simp_all
  have "(2::int) ^ 53 < 2 ^ bits a" using assms hi by linarith
  then have b: "53 < bits a" by (rule power_less_imp_less_exp [rotated]) simp
  then show 1: "bits a = 53 + (bits a - 53)" and "1 \<le> bits a - 53" by simp_all
  define e where "e = bits a - 53"
  have be: "bits a = 53 + e" using 1 by (simp add: e_def)
  have lo': "(2::int) ^ 52 * 2 ^ e \<le> a" using lo unfolding be by (simp add: power_add)
  have hi': "a < 2 ^ 53 * 2 ^ e" using hi unfolding be by (simp only: power_add)
  have p: "(0::int) < 2 ^ e" by simp
  have "(2::int) ^ 52 * 2 ^ e div 2 ^ e \<le> a div 2 ^ e" using lo' p by (rule zdiv_mono1)
  then show "2 ^ 52 \<le> a div 2 ^ (bits a - 53)" by (simp add: e_def)
  have "a div 2 ^ e < 2 ^ 53"
  proof (rule ccontr)
    assume "\<not> a div 2 ^ e < 2 ^ 53"
    then have "2 ^ 53 * 2 ^ e \<le> a div 2 ^ e * 2 ^ e" by (intro mult_right_mono) simp_all
    moreover have "a div 2 ^ e * 2 ^ e \<le> a"
      using div_mult_mod_eq [of a "2 ^ e"] pos_mod_sign [OF p, of a] by linarith
    ultimately show False using hi' by linarith
  qed
  then show "a div 2 ^ (bits a - 53) < 2 ^ 53" by (simp add: e_def)
qed

lemma round64_small: "\<bar>n\<bar> \<le> 2 ^ 53 \<Longrightarrow> round64 n = n"
  by (simp add: round64_def)

lemma round64_minus: "round64 (- n) = - round64 n"
  by (simp add: round64_def sgn_minus)

lemma round_at_big:
  assumes "2 ^ 53 < a"
  shows "\<exists>q. round_at (bits a - 53) a = q * 2 ^ (bits a - 53) \<and> 2 ^ 52 \<le> q \<and> q \<le> 2 ^ 53"
  using round_at_cases [of "bits a - 53" a] big_parts(3,4) [OF assms]
  by (elim disjE) (rule exI, rule conjI, assumption, simp)+

lemma round64_pos_big:
  assumes "2 ^ 53 < a"
  shows "2 ^ 53 \<le> round64 a"
proof -
  from round_at_big [OF assms] obtain q where q:
    "round_at (bits a - 53) a = q * 2 ^ (bits a - 53)" "2 ^ 52 \<le> q" by blast
  have e: "(2::int) \<le> 2 ^ (bits a - 53)"
    using big_parts(2) [OF assms] power_increasing [of 1 "bits a - 53" "2::int"] by simp
  have "(2::int) ^ 52 * 2 \<le> q * 2 ^ (bits a - 53)"
    using q(2) e by (intro mult_mono) simp_all
  then show ?thesis using assms q(1) by (simp add: round64_def)
qed

lemma round64_sign:
  "(0 < round64 n \<longleftrightarrow> 0 < n) \<and> (round64 n < 0 \<longleftrightarrow> n < 0) \<and> (round64 n = 0 \<longleftrightarrow> n = 0)"
proof (cases "\<bar>n\<bar> \<le> 2 ^ 53")
  case True
  then show ?thesis by (simp add: round64_small)
next
  case False
  show ?thesis
  proof (cases "0 < n")
    case True
    with False have "2 ^ 53 < n" by simp
    from round64_pos_big [OF this] have "0 < round64 n" by simp
    with True show ?thesis by simp
  next
    case neg: False
    with False have "2 ^ 53 < - n" by simp
    from round64_pos_big [OF this] have "round64 n < 0" by (simp add: round64_minus)
    moreover have "n < 0" using neg False by simp
    ultimately show ?thesis by simp
  qed
qed

lemma round64_idem_pos:
  assumes "2 ^ 53 < a"
  shows "round64 (round64 a) = round64 a"
proof -
  define e where "e = bits a - 53"
  from round_at_big [OF assms] obtain q where q:
    "round_at e a = q * 2 ^ e" "2 ^ 52 \<le> q" "q \<le> 2 ^ 53" unfolding e_def by blast
  have r: "round64 a = q * 2 ^ e" using assms q(1) by (simp add: round64_def e_def)
  have e1: "1 \<le> e" using big_parts(2) [OF assms] by (simp add: e_def)
  show ?thesis
  proof (cases "q * 2 ^ e \<le> 2 ^ 53")
    case True
    then have "\<bar>q * 2 ^ e\<bar> \<le> 2 ^ 53" using q(2) by simp
    then show ?thesis unfolding r by (rule round64_small)
  next
    case False
    then have big: "2 ^ 53 < q * 2 ^ e" by simp
    show ?thesis
    proof (cases "q = 2 ^ 53")
      case True
      have m: "q * 2 ^ e = 2 ^ (53 + e)" unfolding True by (simp only: power_add)
      have "bits (q * 2 ^ e) = Suc (53 + e)" unfolding m by (rule bits_unique) simp_all
      then have b: "bits (q * 2 ^ e) - 53 = Suc e" by simp
      have "(2::int) ^ (53 + e) mod 2 ^ Suc e = 0"
        by (simp add: power_add)
      then have "round_at (Suc e) (q * 2 ^ e) = q * 2 ^ e" unfolding m by (rule round_at_exact)
      then have "round64 (q * 2 ^ e) = q * 2 ^ e"
        using big b by (simp add: round64_def)
      then show ?thesis unfolding r .
    next
      case ne: False
      then have lt: "q < 2 ^ 53" using q(3) by simp
      have "(2::int) ^ 52 * 2 ^ e \<le> q * 2 ^ e" using q(2) by (intro mult_right_mono) simp_all
      then have lo: "(2::int) ^ (52 + e) \<le> q * 2 ^ e" by (simp only: power_add)
      have "q * 2 ^ e < 2 ^ 53 * 2 ^ e" using lt by (intro mult_strict_right_mono) simp_all
      then have hi: "q * 2 ^ e < 2 ^ Suc (52 + e)" by (simp add: power_add)
      have "bits (q * 2 ^ e) = Suc (52 + e)" using lo hi by (rule bits_unique)
      then have b: "bits (q * 2 ^ e) - 53 = e" by simp
      have "round_at e (q * 2 ^ e) = q * 2 ^ e" by (rule round_at_exact) simp
      then have "round64 (q * 2 ^ e) = q * 2 ^ e"
        using big b by (simp add: round64_def)
      then show ?thesis unfolding r .
    qed
  qed
qed

lemma round64_idem: "round64 (round64 n) = round64 n"
proof (cases "\<bar>n\<bar> \<le> 2 ^ 53")
  case True
  then show ?thesis by (simp add: round64_small)
next
  case False
  show ?thesis
  proof (cases "0 < n")
    case True
    with False have "2 ^ 53 < n" by simp
    then show ?thesis by (rule round64_idem_pos)
  next
    case neg: False
    with False have "2 ^ 53 < - n" by simp
    from round64_idem_pos [OF this] show ?thesis by (simp add: round64_minus)
  qed
qed

lemma round64_zero [simp]: "round64 0 = 0"
  by (simp add: round64_small)

lemma round64_eq_0_iff [simp]: "round64 n = 0 \<longleftrightarrow> n = 0"
  using round64_sign [of n] by blast

lemma round64_le_0_iff: "round64 n \<le> 0 \<longleftrightarrow> n \<le> 0"
  using round64_sign [of n] by (metis less_le not_less)

lemma js_add_exact: "\<bar>a + b\<bar> \<le> 2 ^ 53 \<Longrightarrow> js_add a b = a + b"
  by (simp add: js_add_def round64_small)

lemma js_sub_exact: "\<bar>a - b\<bar> \<le> 2 ^ 53 \<Longrightarrow> js_sub a b = a - b"
  by (simp add: js_sub_def round64_small)

lemma js_mul_exact: "\<bar>a * b\<bar> \<le> 2 ^ 53 \<Longrightarrow> js_mul a b = a * b"
  by (simp add: js_mul_def round64_small)

lemma js_sub_le_0_iff: "js_sub a b \<le> 0 \<longleftrightarrow> a \<le> b"
  by (simp add: js_sub_def round64_le_0_iff)

lemma js_mul_zero_right [simp]: "js_mul a 0 = 0"
  by (simp add: js_mul_def)

lemma js_add_double: "round64 (js_add a b) = js_add a b"
  by (simp add: js_add_def round64_idem)


lemma js_add_zero_right: "round64 s = s \<Longrightarrow> js_add s 0 = s"
  by (simp add: js_add_def)

section \<open>Facts about the store\<close>

lemma getElement_map_of:
  "getElement m row col = (case map_of (elements m) (row, col) of None \<Rightarrow> 0 | Some v \<Rightarrow> v)"
  by (auto simp: getElement_def Map_has_def Map_get_def getKey_def split: option.splits)

lemma I2_D:
  "I2 m \<Longrightarrow> ((r, c), v) \<in> set (elements m) \<Longrightarrow> 0 \<le> r \<and> r < rows m \<and> 0 \<le> c \<and> c < cols m"
  by (auto simp: I2_def list_all_iff)

lemma I1_D: "I1 m \<Longrightarrow> (k, v) \<in> set (elements m) \<Longrightarrow> v \<noteq> 0"
  by (auto simp: I1_def list_all_iff)

lemma getElement_out_of_range:
  assumes "I2 m" and "row < 0 \<or> row \<ge> rows m \<or> col < 0 \<or> col \<ge> cols m"
  shows "getElement m row col = 0"
proof (cases "map_of (elements m) (row, col)")
  case None
  then show ?thesis by (simp add: getElement_map_of)
next
  case (Some v)
  then have "((row, col), v) \<in> set (elements m)" by (rule map_of_SomeD)
  with assms show ?thesis by (auto dest: I2_D)
qed

lemma getElement_absent:
  "(row, col) \<notin> fst ` set (elements m) \<Longrightarrow> getElement m row col = 0"
  by (simp add: getElement_map_of map_of_eq_None_iff [THEN iffD2])

lemma setElement_Inl_iff:
  "(\<exists>e. setElement m row col v = Inl e) \<longleftrightarrow>
   (row < 0 \<or> row \<ge> rows m \<or> col < 0 \<or> col \<ge> cols m)"
  by (auto simp: setElement_def Let_def)

lemma setElement_error:
  "setElement m row col v = Inl e \<Longrightarrow> e = InvalidIndices row col (rows m) (cols m)"
  by (auto simp: setElement_def Let_def split: if_splits)

section \<open>Claims about the store\<close>

text \<open>
  C6: \<open>setElement\<close> fails, with the invalid-indices error, exactly when the row is
  outside \<open>[0, rows)\<close> or the column is outside \<open>[0, cols)\<close>. \<open>getElement\<close> has no
  failing path (it is a total function of the store and two integers); it returns 0 for
  a coordinate that is not stored, and on a store whose keys are in range (\<open>I2\<close>)
  for every coordinate out of range.
\<close>

theorem C6_set_fails_iff_out_of_range_get_total:
  "((\<exists>e. setElement m row col v = Inl e) \<longleftrightarrow>
      (row < 0 \<or> row \<ge> rows m \<or> col < 0 \<or> col \<ge> cols m))
   \<and> (\<forall>e. setElement m row col v = Inl e \<longrightarrow> e = InvalidIndices row col (rows m) (cols m))
   \<and> ((row, col) \<notin> fst ` set (elements m) \<longrightarrow> getElement m row col = 0)
   \<and> (I2 m \<and> (row < 0 \<or> row \<ge> rows m \<or> col < 0 \<or> col \<ge> cols m)
        \<longrightarrow> getElement m row col = 0)"
  using setElement_Inl_iff [of m row col v] setElement_error [of m row col v]
    getElement_absent [of row col m] getElement_out_of_range [of m row col]
  by blast

theorem C6_witness:
  "I2 \<lparr>rows = 2, cols = 2, elements = [((0, 0), 1)]\<rparr>
   \<and> (5::int) \<ge> rows \<lparr>rows = 2, cols = 2, elements = [((0, 0), 1)]\<rparr>
   \<and> (5, 0) \<notin> fst ` set (elements \<lparr>rows = 2, cols = 2, elements = [((0, 0), 1)]\<rparr>)
   \<and> setElement \<lparr>rows = 2, cols = 2, elements = [((0, 0), 1)]\<rparr> 5 0 7
         = Inl (InvalidIndices 5 0 2 2)
   \<and> getElement \<lparr>rows = 2, cols = 2, elements = [((0, 0), 1)]\<rparr> 5 0 = 0"
  using C6_set_fails_iff_out_of_range_get_total
    [of "\<lparr>rows = 2, cols = 2, elements = [((0, 0), 1)]\<rparr>" 5 0 7]
  by (simp add: I2_def setElement_def getElement_def Map_has_def getKey_def)

section \<open>Addition and subtraction\<close>

lemma setElement_Inr:
  "0 \<le> row \<Longrightarrow> row < rows m \<Longrightarrow> 0 \<le> col \<Longrightarrow> col < cols m \<Longrightarrow>
   setElement m row col v =
     Inr (m\<lparr>elements := (if v = 0 then Map_delete (elements m) (row, col)
                          else Map_set (elements m) (row, col) v)\<rparr>)"
  by (simp add: setElement_def getKey_def)

lemma setElement_dims:
  "setElement m row col v = Inr m' \<Longrightarrow> rows m' = rows m \<and> cols m' = cols m"
  by (auto simp: setElement_def Let_def split: if_splits)

lemma setElement_get:
  "setElement m row col v = Inr m' \<Longrightarrow>
   getElement m' i j = (if (i, j) = (row, col) then v else getElement m i j)"
  by (auto simp: setElement_def Let_def getElement_map_of getKey_def Map_delete_def Map_set_def
      delete_conv' update_conv' split: if_splits)

lemma set_update_cases:
  "x \<in> set (AList.update k v al) \<Longrightarrow> x = (k, v) \<or> x \<in> set al"
  by (induction al) (auto split: if_splits)

lemma set_delete_subset: "x \<in> set (AList.delete k al) \<Longrightarrow> x \<in> set al"
  by (simp add: AList.delete_eq)

lemma setElement_I1: "setElement m row col v = Inr m' \<Longrightarrow> I1 m \<Longrightarrow> I1 m'"
  by (auto simp: setElement_def Let_def I1_def list_all_iff Map_delete_def Map_set_def
      split: if_splits dest!: set_update_cases set_delete_subset)


lemma setElement_I2: "setElement m row col v = Inr m' \<Longrightarrow> I2 m \<Longrightarrow> I2 m'"
  by (auto simp: setElement_def Let_def I2_def list_all_iff Map_delete_def Map_set_def getKey_def
      split: if_splits dest!: set_update_cases set_delete_subset)

lemma for_each_invariant:
  assumes "for_each f xs s = Inr s'" and "P s"
    and "\<And>x t t'. x \<in> set xs \<Longrightarrow> P t \<Longrightarrow> f x t = Inr t' \<Longrightarrow> P t'"
  shows "P s'"
  using assms
proof (induction xs arbitrary: s)
  case Nil
  then show ?case by simp
next
  case (Cons x xs)
  from Cons.prems(1) obtain t where t: "f x s = Inr t" and rest: "for_each f xs t = Inr s'"
    by (auto split: sum.splits)
  have "P t" using Cons.prems(2,3) t by auto
  with rest Cons.IH Cons.prems(3) show ?case by auto
qed

lemma accumulate_loop:
  assumes "list_all (\<lambda>((r, c), v). 0 \<le> r \<and> r < rows R0 \<and> 0 \<le> c \<and> c < cols R0) es"
    and "distinct (map fst es)"
  shows "\<exists>R. for_each (\<lambda>((row, col), v) result.
                 setElement result row col (f (getElement result row col) v)) es R0 = Inr R
           \<and> rows R = rows R0 \<and> cols R = cols R0
           \<and> (\<forall>i j. getElement R i j =
                 (case map_of es (i, j) of Some v \<Rightarrow> f (getElement R0 i j) v
                  | None \<Rightarrow> getElement R0 i j))"
  using assms
proof (induction es arbitrary: R0)
  case Nil
  then show ?case by simp
next
  case (Cons e es)
  obtain r c v where e: "e = ((r, c), v)" by (metis prod.exhaust)
  from Cons.prems(1) e have rng: "0 \<le> r" "r < rows R0" "0 \<le> c" "c < cols R0" by auto
  define R1 where "R1 = R0\<lparr>elements :=
      (if f (getElement R0 r c) v = 0 then Map_delete (elements R0) (r, c)
       else Map_set (elements R0) (r, c) (f (getElement R0 r c) v))\<rparr>"
  have step: "setElement R0 r c (f (getElement R0 r c) v) = Inr R1"
    using rng by (simp add: setElement_Inr R1_def)
  have dims: "rows R1 = rows R0" "cols R1 = cols R0" by (simp_all add: R1_def)
  have "list_all (\<lambda>((r, c), v). 0 \<le> r \<and> r < rows R1 \<and> 0 \<le> c \<and> c < cols R1) es"
    using Cons.prems(1) dims by simp
  moreover have "distinct (map fst es)" using Cons.prems(2) by simp
  ultimately obtain R where R:
    "for_each (\<lambda>((row, col), v) result.
        setElement result row col (f (getElement result row col) v)) es R1 = Inr R"
    "rows R = rows R1" "cols R = cols R1"
    "\<forall>i j. getElement R i j =
        (case map_of es (i, j) of Some v \<Rightarrow> f (getElement R1 i j) v | None \<Rightarrow> getElement R1 i j)"
    using Cons.IH [of R1] by blast
  have notin: "map_of es (r, c) = None"
    using Cons.prems(2) e by (simp add: map_of_eq_None_iff)
  have get1: "getElement R1 i j = (if (i, j) = (r, c) then f (getElement R0 r c) v else getElement R0 i j)"
    for i j using setElement_get [OF step] by simp
  have "\<forall>i j. getElement R i j =
      (case map_of (e # es) (i, j) of Some v \<Rightarrow> f (getElement R0 i j) v | None \<Rightarrow> getElement R0 i j)"
  proof (intro allI)
    fix i j
    show "getElement R i j =
      (case map_of (e # es) (i, j) of Some v \<Rightarrow> f (getElement R0 i j) v | None \<Rightarrow> getElement R0 i j)"
    proof (cases "(i, j) = (r, c)")
      case True
      then show ?thesis using R(4) notin get1 e by simp
    next
      case False
      then show ?thesis using R(4) get1 e by (auto split: option.splits)
    qed
  qed
  then show ?case using R(1-3) dims step e by simp
qed

lemma getElement_new_matrix [simp]: "getElement (new_matrix r c) i j = 0"
  by (simp add: getElement_map_of new_matrix_def)

lemma new_matrix_sel [simp]:
  "rows (new_matrix r c) = r" "cols (new_matrix r c) = c" "elements (new_matrix r c) = []"
  by (simp_all add: new_matrix_def)

lemma pointwise_loops:
  assumes A: "I2 A" "I3 A" and B: "I2 B" "I3 B"
    and dims: "rows A = rows B" "cols A = cols B"
  shows "\<exists>R R'. for_each (\<lambda>((row, col), v) result. setElement result row col v)
                  (elements A) (new_matrix (rows A) (cols A)) = Inr R'
          \<and> for_each (\<lambda>((row, col), v) result.
                 setElement result row col (f (getElement result row col) v))
               (elements B) R' = Inr R
          \<and> rows R = rows A \<and> cols R = cols A
          \<and> (\<forall>i j. getElement R i j =
                (case map_of (elements B) (i, j) of
                   Some v \<Rightarrow> f (getElement A i j) v | None \<Rightarrow> getElement A i j))"
proof -
  have "list_all (\<lambda>((r, c), v). 0 \<le> r \<and> r < rows (new_matrix (rows A) (cols A))
           \<and> 0 \<le> c \<and> c < cols (new_matrix (rows A) (cols A))) (elements A)"
    using A(1) by (simp add: I2_def)
  moreover have "distinct (map fst (elements A))" using A(2) by (simp add: I3_def)
  ultimately obtain R' where R':
    "for_each (\<lambda>((row, col), v) result. setElement result row col v)
       (elements A) (new_matrix (rows A) (cols A)) = Inr R'"
    "rows R' = rows A" "cols R' = cols A"
    "\<forall>i j. getElement R' i j =
        (case map_of (elements A) (i, j) of Some v \<Rightarrow> v
         | None \<Rightarrow> getElement (new_matrix (rows A) (cols A)) i j)"
    using accumulate_loop [where f = "\<lambda>cur v. v" and es = "elements A"
        and ?R0.0 = "new_matrix (rows A) (cols A)"]
    by (auto simp del: getElement_new_matrix)
  have same: "getElement R' i j = getElement A i j" for i j
    using R'(4) by (simp add: getElement_map_of [of A] split: option.splits)
  have "list_all (\<lambda>((r, c), v). 0 \<le> r \<and> r < rows R' \<and> 0 \<le> c \<and> c < cols R') (elements B)"
    using B(1) R'(2,3) dims by (simp add: I2_def)
  moreover have "distinct (map fst (elements B))" using B(2) by (simp add: I3_def)
  ultimately obtain R where R:
    "for_each (\<lambda>((row, col), v) result.
        setElement result row col (f (getElement result row col) v)) (elements B) R' = Inr R"
    "rows R = rows R'" "cols R = cols R'"
    "\<forall>i j. getElement R i j =
        (case map_of (elements B) (i, j) of Some v \<Rightarrow> f (getElement R' i j) v
         | None \<Rightarrow> getElement R' i j)"
    using accumulate_loop [where f = f and es = "elements B" and ?R0.0 = R'] by blast
  have "getElement R i j =
      (case map_of (elements B) (i, j) of
         Some v \<Rightarrow> f (getElement A i j) v | None \<Rightarrow> getElement A i j)" for i j
    using R(4) same by (simp split: option.splits)
  then show ?thesis using R'(1,2,3) R(1,2,3) by auto
qed

lemma add_pointwise:
  assumes "I2 A" "I3 A" "I2 B" "I3 B" "rows A = rows B" "cols A = cols B"
  shows "\<exists>R. add A B = Inr R \<and> rows R = rows A \<and> cols R = cols A
           \<and> (\<forall>r c. getElement R r c =
                 (case map_of (elements B) (r, c) of
                    Some v \<Rightarrow> js_add (getElement A r c) v | None \<Rightarrow> getElement A r c))"
proof -
  from pointwise_loops [OF assms, where f = js_add] obtain R R' where
    l1: "for_each (\<lambda>((row, col), v) result. setElement result row col v)
            (elements A) (new_matrix (rows A) (cols A)) = Inr R'"
    and l2: "for_each (\<lambda>((row, col), v) result.
                 setElement result row col (js_add (getElement result row col) v))
               (elements B) R' = Inr R"
    and d: "rows R = rows A" "cols R = cols A"
    and g: "\<forall>i j. getElement R i j =
                (case map_of (elements B) (i, j) of
                   Some v \<Rightarrow> js_add (getElement A i j) v | None \<Rightarrow> getElement A i j)"
    by blast
  have "add A B = Inr R" using assms(5,6) l1 l2 by (simp add: add_def)
  then show ?thesis using d g by blast
qed

lemma subtract_pointwise:
  assumes "I2 A" "I3 A" "I2 B" "I3 B" "rows A = rows B" "cols A = cols B"
  shows "\<exists>R. subtract A B = Inr R \<and> rows R = rows A \<and> cols R = cols A
           \<and> (\<forall>r c. getElement R r c =
                 (case map_of (elements B) (r, c) of
                    Some v \<Rightarrow> js_sub (getElement A r c) v | None \<Rightarrow> getElement A r c))"
proof -
  from pointwise_loops [OF assms, where f = js_sub] obtain R R' where
    l1: "for_each (\<lambda>((row, col), v) result. setElement result row col v)
            (elements A) (new_matrix (rows A) (cols A)) = Inr R'"
    and l2: "for_each (\<lambda>((row, col), v) result.
                 setElement result row col (js_sub (getElement result row col) v))
               (elements B) R' = Inr R"
    and d: "rows R = rows A" "cols R = cols A"
    and g: "\<forall>i j. getElement R i j =
                (case map_of (elements B) (i, j) of
                   Some v \<Rightarrow> js_sub (getElement A i j) v | None \<Rightarrow> getElement A i j)"
    by blast
  have "subtract A B = Inr R" using assms(5,6) l1 l2 by (simp add: subtract_def)
  then show ?thesis using d g by blast
qed

lemma add_exact:
  assumes "I2 A" "I3 A" "I2 B" "I3 B" "rows A = rows B" "cols A = cols B"
  shows "\<exists>R. add A B = Inr R \<and> rows R = rows A \<and> cols R = cols A
           \<and> (\<forall>r c. \<bar>getElement A r c + getElement B r c\<bar> \<le> 2 ^ 53 \<longrightarrow>
                 getElement R r c = getElement A r c + getElement B r c)"
proof -
  from add_pointwise [OF assms] obtain R where R: "add A B = Inr R" "rows R = rows A"
    "cols R = cols A"
    and g: "\<forall>r c. getElement R r c =
                 (case map_of (elements B) (r, c) of
                    Some v \<Rightarrow> js_add (getElement A r c) v | None \<Rightarrow> getElement A r c)"
    by blast
  have "getElement R r c = getElement A r c + getElement B r c"
    if "\<bar>getElement A r c + getElement B r c\<bar> \<le> 2 ^ 53" for r c
    using g [rule_format, of r c] that
    by (auto simp: getElement_map_of [of B] js_add_exact split: option.splits)
  with R show ?thesis by blast
qed

lemma subtract_exact:
  assumes "I2 A" "I3 A" "I2 B" "I3 B" "rows A = rows B" "cols A = cols B"
  shows "\<exists>R. subtract A B = Inr R \<and> rows R = rows A \<and> cols R = cols A
           \<and> (\<forall>r c. \<bar>getElement A r c - getElement B r c\<bar> \<le> 2 ^ 53 \<longrightarrow>
                 getElement R r c = getElement A r c - getElement B r c)"
proof -
  from subtract_pointwise [OF assms] obtain R where R: "subtract A B = Inr R" "rows R = rows A"
    "cols R = cols A"
    and g: "\<forall>r c. getElement R r c =
                 (case map_of (elements B) (r, c) of
                    Some v \<Rightarrow> js_sub (getElement A r c) v | None \<Rightarrow> getElement A r c)"
    by blast
  have "getElement R r c = getElement A r c - getElement B r c"
    if "\<bar>getElement A r c - getElement B r c\<bar> \<le> 2 ^ 53" for r c
    using g [rule_format, of r c] that
    by (auto simp: getElement_map_of [of B] js_sub_exact split: option.splits)
  with R show ?thesis by blast
qed

lemma add_mismatch:
  "rows A \<noteq> rows B \<or> cols A \<noteq> cols B \<Longrightarrow> add A B = Inl AddDimensions"
  by (simp add: add_def)

lemma subtract_mismatch:
  "rows A \<noteq> rows B \<or> cols A \<noteq> cols B \<Longrightarrow> subtract A B = Inl SubtractDimensions"
  by (simp add: subtract_def)

lemmas store_eval =
  add_def subtract_def new_matrix_def setElement_def getElement_def Map_set_def Map_delete_def
  Map_has_def Map_get_def getKey_def I1_def I2_def I3_def

lemmas round_eval = js_add_def js_sub_def js_mul_def round64_def round_at_def bits.simps Let_def

text \<open>
  C2, as stated, fails: the value that \<open>add\<close> stores is the sum rounded to a double.
  For the \<open>1 x 1\<close> stores that hold \<open>2 ^ 53 = 9007199254740992\<close> and \<open>1\<close> the result
  holds \<open>9007199254740992\<close>, not the sum \<open>9007199254740993\<close>; \<open>subtract\<close> from
  \<open>- 2 ^ 53\<close> likewise.
\<close>

theorem C2_counterexample:
  "I2 (single 9007199254740992) \<and> I3 (single 9007199254740992)
   \<and> I2 (single 1) \<and> I3 (single 1)
   \<and> rows (single 9007199254740992) = rows (single 1)
   \<and> cols (single 9007199254740992) = cols (single 1)
   \<and> add (single 9007199254740992) (single 1) = Inr (single 9007199254740992)
   \<and> getElement (single 9007199254740992) 0 0
       \<noteq> getElement (single 9007199254740992) 0 0 + getElement (single 1) 0 0
   \<and> subtract (single (- 9007199254740992)) (single 1)
       = Inr (single (- 9007199254740992))
   \<and> getElement (single (- 9007199254740992)) 0 0
       \<noteq> getElement (single (- 9007199254740992)) 0 0 - getElement (single 1) 0 0"
  by (simp add: single_def store_eval round_eval)

text \<open>
  C2, amended: \<open>add\<close> fails with the dimension error of addition unless both operands
  have the same number of rows and of columns. On stores whose keys are in range and
  unique it then succeeds, the result has the operands' dimensions and
  \<open>result.get(r,c) = A.get(r,c) + B.get(r,c)\<close> at every coordinate at which that sum has
  a magnitude of at most \<open>2 ^ 53\<close>. \<open>subtract\<close> has the same check and gives
  \<open>A.get(r,c) - B.get(r,c)\<close> wherever that difference has a magnitude of at most
  \<open>2 ^ 53\<close>.
\<close>

theorem C2_add_subtract_exact_up_to_2_53:
  "(rows A \<noteq> rows B \<or> cols A \<noteq> cols B \<longrightarrow>
      add A B = Inl AddDimensions \<and> subtract A B = Inl SubtractDimensions)
   \<and> (I2 A \<and> I3 A \<and> I2 B \<and> I3 B \<and> rows A = rows B \<and> cols A = cols B \<longrightarrow>
        (\<exists>R. add A B = Inr R \<and> rows R = rows A \<and> cols R = cols A
           \<and> (\<forall>r c. \<bar>getElement A r c + getElement B r c\<bar> \<le> 2 ^ 53 \<longrightarrow>
                 getElement R r c = getElement A r c + getElement B r c))
      \<and> (\<exists>R. subtract A B = Inr R \<and> rows R = rows A \<and> cols R = cols A
           \<and> (\<forall>r c. \<bar>getElement A r c - getElement B r c\<bar> \<le> 2 ^ 53 \<longrightarrow>
                 getElement R r c = getElement A r c - getElement B r c)))"
  using add_mismatch [of A B] subtract_mismatch [of A B]
    add_exact [of A B] subtract_exact [of A B]
  by blast

theorem C2_witness:
  "I2 matrixA \<and> I3 matrixA \<and> I2 matrixB \<and> I3 matrixB
   \<and> rows matrixA = rows matrixB \<and> cols matrixA = cols matrixB
   \<and> \<bar>getElement matrixA 0 0 + getElement matrixB 0 0\<bar> \<le> 2 ^ 53
   \<and> \<bar>getElement matrixA 1 0 - getElement matrixB 1 0\<bar> \<le> 2 ^ 53
   \<and> (\<exists>R. add matrixA matrixB = Inr R \<and> rows R = 2 \<and> cols R = 2
         \<and> getElement R 0 0 = 3)
   \<and> (\<exists>R. subtract matrixA matrixB = Inr R \<and> rows R = 2 \<and> cols R = 2
         \<and> getElement R 1 0 = - 4)
   \<and> rows matrixA \<noteq> rows (new_matrix 3 2)
   \<and> add matrixA (new_matrix 3 2) = Inl AddDimensions
   \<and> subtract matrixA (new_matrix 3 2) = Inl SubtractDimensions"
proof -
  have hyp: "I2 matrixA \<and> I3 matrixA \<and> I2 matrixB \<and> I3 matrixB
      \<and> rows matrixA = rows matrixB \<and> cols matrixA = cols matrixB"
    by (simp add: I2_def I3_def matrixA_def matrixB_def)
  have v: "getElement matrixA 0 0 = 1" "getElement matrixB 0 0 = 2"
    "getElement matrixA 1 0 = 0" "getElement matrixB 1 0 = 4"
    "rows matrixA = 2" "cols matrixA = 2"
    by (simp_all add: matrixA_def matrixB_def getElement_map_of)
  have mis: "rows matrixA \<noteq> rows (new_matrix 3 2)" by (simp add: matrixA_def)
  from C2_add_subtract_exact_up_to_2_53 [of matrixA matrixB] hyp
  obtain R D where R: "add matrixA matrixB = Inr R" "rows R = rows matrixA"
      "cols R = cols matrixA"
      "\<forall>r c. \<bar>getElement matrixA r c + getElement matrixB r c\<bar> \<le> 2 ^ 53 \<longrightarrow>
             getElement R r c = getElement matrixA r c + getElement matrixB r c"
    and D: "subtract matrixA matrixB = Inr D" "rows D = rows matrixA"
      "cols D = cols matrixA"
      "\<forall>r c. \<bar>getElement matrixA r c - getElement matrixB r c\<bar> \<le> 2 ^ 53 \<longrightarrow>
             getElement D r c = getElement matrixA r c - getElement matrixB r c"
    by blast
  have "getElement R 0 0 = 3" using R(4) [rule_format, of 0 0] v by simp
  moreover have "getElement D 1 0 = - 4" using D(4) [rule_format, of 1 0] v by simp
  ultimately show ?thesis
    using C2_add_subtract_exact_up_to_2_53 [of matrixA "new_matrix 3 2"] hyp v mis R(1-3) D(1-3)
    by simp
qed

section \<open>Multiplication\<close>

lemma map_of_index_push:
  "map_of (index_push idx k x) =
     (map_of idx)(k \<mapsto> (case map_of idx k of None \<Rightarrow> [] | Some cs \<Rightarrow> cs) @ [x])"
  by (auto simp: index_push_def Let_def update_conv' fun_eq_iff)

lemma distinct_index_push:
  "distinct (map fst idx) \<Longrightarrow> distinct (map fst (index_push idx k x))"
  by (simp add: index_push_def Let_def distinct_update)

lemma keys_index_push:
  "fst ` set (index_push idx k x) = insert k (fst ` set idx)"
  by (auto simp: index_push_def Let_def dom_update)

lemma index_fold:
  "distinct (map fst idx) \<Longrightarrow>
   distinct (map fst (foldl (\<lambda>idx e. index_push idx (kf e) (xf e)) idx es))
   \<and> (\<forall>k. map_of (foldl (\<lambda>idx e. index_push idx (kf e) (xf e)) idx es) k =
        (case map_of idx k of
           None \<Rightarrow> (if filter (\<lambda>e. kf e = k) es = [] then None
                    else Some (map xf (filter (\<lambda>e. kf e = k) es)))
         | Some cs \<Rightarrow> Some (cs @ map xf (filter (\<lambda>e. kf e = k) es))))"
proof (induction es arbitrary: idx)
  case Nil
  then show ?case by (simp split: option.splits)
next
  case (Cons e es)
  have d: "distinct (map fst (index_push idx (kf e) (xf e)))"
    using Cons.prems by (rule distinct_index_push)
  show ?case
    using Cons.IH [OF d] by (auto simp: map_of_index_push split: option.splits)
qed

lemma thisRowIndices_alt:
  "thisRowIndices es = foldl (\<lambda>idx e. index_push idx (fst (fst e)) (snd (fst e))) [] es"
proof -
  have "(\<lambda>idx ((row, col), v). index_push idx row col)
      = (\<lambda>idx (e :: key \<times> int). index_push idx (fst (fst e)) (snd (fst e)))"
    by (auto simp: fun_eq_iff)
  then show ?thesis by (simp add: thisRowIndices_def)
qed

lemma otherColIndices_alt:
  "otherColIndices es = foldl (\<lambda>idx e. index_push idx (snd (fst e)) (fst (fst e))) [] es"
proof -
  have "(\<lambda>idx ((row, col), v). index_push idx col row)
      = (\<lambda>idx (e :: key \<times> int). index_push idx (snd (fst e)) (fst (fst e)))"
    by (auto simp: fun_eq_iff)
  then show ?thesis by (simp add: otherColIndices_def)
qed

lemma thisRowIndices_map_of:
  "map_of (thisRowIndices es) r = (if cols_in_row es r = [] then None else Some (cols_in_row es r))"
  using index_fold [of "[]" "\<lambda>e. fst (fst e)" "\<lambda>e. snd (fst e)" es]
  by (simp add: thisRowIndices_alt cols_in_row_def)

lemma thisRowIndices_distinct: "distinct (map fst (thisRowIndices es))"
  using index_fold [of "[]" "\<lambda>e. fst (fst e)" "\<lambda>e. snd (fst e)" es]
  by (simp add: thisRowIndices_alt)

lemma otherColIndices_map_of:
  "map_of (otherColIndices es) c = (if rows_in_col es c = [] then None else Some (rows_in_col es c))"
  using index_fold [of "[]" "\<lambda>e. snd (fst e)" "\<lambda>e. fst (fst e)" es]
  by (simp add: otherColIndices_alt rows_in_col_def)

lemma set_cols_in_row: "set (cols_in_row es r) = {c. (r, c) \<in> fst ` set es}"
  by (force simp: cols_in_row_def)

lemma set_rows_in_col: "set (rows_in_col es c) = {r. (r, c) \<in> fst ` set es}"
  by (force simp: rows_in_col_def)

lemma distinct_cols_in_row: "distinct (map fst es) \<Longrightarrow> distinct (cols_in_row es r)"
proof -
  assume d: "distinct (map fst es)"
  have "cols_in_row es r = map snd (map fst (filter (\<lambda>e. fst (fst e) = r) es))"
    by (simp add: cols_in_row_def)
  moreover have "distinct (map fst (filter (\<lambda>e. fst (fst e) = r) es))"
    using d by (rule distinct_map_filter)
  moreover have "inj_on snd (set (map fst (filter (\<lambda>e. fst (fst e) = r) es)))"
    by (auto simp: inj_on_def)
  ultimately show ?thesis by (simp only: distinct_map simp_thms)
qed

lemma foldl_skip:
  assumes "round64 s = s" "\<forall>x\<in>set xs. \<not> P x \<longrightarrow> g x = 0"
  shows "foldl (\<lambda>sum x. if P x then js_add sum (g x) else sum) s xs
           = foldl (\<lambda>sum x. js_add sum (g x)) s xs"
  using assms
proof (induction xs arbitrary: s)
  case Nil
  then show ?case by simp
next
  case (Cons x xs)
  have d: "round64 (js_add s (g x)) = js_add s (g x)" by (rule js_add_double)
  have r: "\<forall>x\<in>set xs. \<not> P x \<longrightarrow> g x = 0" using Cons.prems(2) by simp
  show ?case
  proof (cases "P x")
    case True
    then show ?thesis using Cons.IH [OF d r] by simp
  next
    case False
    then have "g x = 0" using Cons.prems(2) by simp
    then have "js_add s (g x) = s" using Cons.prems(1) by (simp add: js_add_zero_right)
    then show ?thesis using False Cons.IH [OF Cons.prems(1) r] by simp
  qed
qed

lemma foldl_exact:
  "\<bar>s\<bar> + (\<Sum>x\<leftarrow>xs. \<bar>a x * b x\<bar>) \<le> 2 ^ 53 \<Longrightarrow>
   foldl (\<lambda>sum x. js_add sum (js_mul (a x) (b x))) s xs = s + (\<Sum>x\<leftarrow>xs. a x * b x)"
proof (induction xs arbitrary: s)
  case Nil
  then show ?case by simp
next
  case (Cons x xs)
  have nn: "0 \<le> (\<Sum>x\<leftarrow>xs. \<bar>a x * b x\<bar>)" by (rule sum_list_nonneg) auto
  have m: "js_mul (a x) (b x) = a x * b x"
    using Cons.prems nn by (intro js_mul_exact) simp
  have "\<bar>s + a x * b x\<bar> \<le> \<bar>s\<bar> + \<bar>a x * b x\<bar>" by (rule abs_triangle_ineq)
  then have bound: "\<bar>s + a x * b x\<bar> + (\<Sum>x\<leftarrow>xs. \<bar>a x * b x\<bar>) \<le> 2 ^ 53"
    using Cons.prems by simp
  then have ad: "js_add s (a x * b x) = s + a x * b x"
    using nn by (intro js_add_exact) simp
  show ?case using Cons.IH [OF bound] m ad by simp
qed

lemma multiply_cell_fold:
  "multiply_cell A B (otherColIndices (elements B)) i colsA j
     = foldl (\<lambda>sum k. js_add sum (js_mul (getElement A i k) (getElement B k j))) 0 colsA"
proof -
  define rowsB where
    "rowsB = (case map_of (otherColIndices (elements B)) j of Some rs \<Rightarrow> rs | None \<Rightarrow> [])"
  have set_rowsB: "set rowsB = {r. (r, j) \<in> fst ` set (elements B)}"
    using set_rows_in_col [of "elements B" j]
    by (auto simp: rowsB_def otherColIndices_map_of)
  have "\<forall>k\<in>set colsA. k \<notin> set rowsB \<longrightarrow> js_mul (getElement A i k) (getElement B k j) = 0"
    using getElement_absent [of _ j B] by (simp add: set_rowsB)
  then have "foldl (\<lambda>sum k. if k \<in> set rowsB
                       then js_add sum (js_mul (getElement A i k) (getElement B k j))
                       else sum) 0 colsA
      = foldl (\<lambda>sum k. js_add sum (js_mul (getElement A i k) (getElement B k j))) 0 colsA"
    by (intro foldl_skip) simp_all
  then show ?thesis by (simp add: multiply_cell_def flip: rowsB_def)
qed

lemma sum_list_upto_support:
  assumes "distinct ks" and "\<forall>k\<in>set ks. 0 \<le> k \<and> k < n"
    and "\<forall>k. k \<notin> set ks \<longrightarrow> g k = (0::int)"
  shows "(\<Sum>k\<leftarrow>ks. g k) = (\<Sum>k\<leftarrow>[0..n - 1]. g k)"
proof -
  have "(\<Sum>k\<leftarrow>ks. g k) = sum g (set ks)"
    using assms(1) by (rule sum_list_distinct_conv_sum_set)
  also have "\<dots> = sum g {0..n - 1}"
    using assms(2,3) by (intro sum.mono_neutral_left) auto
  also have "\<dots> = (\<Sum>k\<leftarrow>[0..n - 1]. g k)"
    using sum_list_distinct_conv_sum_set [of "[0..n - 1]" g] by simp
  finally show ?thesis .
qed

lemma dot_outside_col:
  assumes "I2 B" "j < 0 \<or> j \<ge> cols B"
  shows "dot A B i j = 0"
proof -
  have "getElement B k j = 0" for k
    using assms by (intro getElement_out_of_range) auto
  then show ?thesis by (simp add: dot_def)
qed

lemma cell_sum_dot:
  assumes "I2 A" "I3 A" "I2 B" "abs_dot A B i j \<le> 2 ^ 53"
  shows "cell_sum A B i j = dot A B i j"
proof (cases "0 \<le> j \<and> j < cols B")
  case False
  then have "dot A B i j = 0" using dot_outside_col [OF assms(3), of j A i] by auto
  then show ?thesis using False by (auto simp: cell_sum_def)
next
  case True
  let ?ks = "cols_in_row (elements A) i"
  have d: "distinct ?ks" using assms(2) by (simp add: I3_def distinct_cols_in_row)
  have r: "\<forall>k\<in>set ?ks. 0 \<le> k \<and> k < cols A"
    using assms(1) by (auto simp: set_cols_in_row dest: I2_D)
  have z: "\<forall>k. k \<notin> set ?ks \<longrightarrow> getElement A i k * getElement B k j = 0"
    using getElement_absent [of i _ A] by (simp add: set_cols_in_row)
  then have za: "\<forall>k. k \<notin> set ?ks \<longrightarrow> \<bar>getElement A i k * getElement B k j\<bar> = 0"
    by simp
  have "(\<Sum>k\<leftarrow>?ks. \<bar>getElement A i k * getElement B k j\<bar>) = abs_dot A B i j"
    unfolding abs_dot_def using d r za by (rule sum_list_upto_support)
  then have "\<bar>0::int\<bar> + (\<Sum>k\<leftarrow>?ks. \<bar>getElement A i k * getElement B k j\<bar>) \<le> 2 ^ 53"
    using assms(4) by simp
  then have "foldl (\<lambda>sum k. js_add sum (js_mul (getElement A i k) (getElement B k j))) 0 ?ks
      = 0 + (\<Sum>k\<leftarrow>?ks. getElement A i k * getElement B k j)"
    by (rule foldl_exact)
  also have "\<dots> = dot A B i j"
    unfolding dot_def using sum_list_upto_support [OF d r z] by simp
  finally show ?thesis using True by (simp add: cell_sum_def)
qed

lemma cell_loop:
  assumes "0 \<le> rowA" "rowA < rows R0" "\<forall>j\<in>set js. 0 \<le> j \<and> j < cols R0"
  shows "\<exists>R. for_each (\<lambda>colB result.
                 let sum = val colB
                 in if sum \<noteq> 0 then setElement result rowA colB sum else Inr result) js R0 = Inr R
           \<and> rows R = rows R0 \<and> cols R = cols R0
           \<and> (\<forall>i j. getElement R i j =
                 (if i = rowA \<and> j \<in> set js \<and> val j \<noteq> 0 then val j else getElement R0 i j))"
  using assms
proof (induction js arbitrary: R0)
  case Nil
  then show ?case by simp
next
  case (Cons c js)
  let ?body = "\<lambda>colB result.
      let sum = val colB in if sum \<noteq> 0 then setElement result rowA colB sum else Inr result"
  obtain R1 where step: "?body c R0 = Inr R1"
    and dims: "rows R1 = rows R0" "cols R1 = cols R0"
    and get1: "\<forall>i j. getElement R1 i j =
        (if i = rowA \<and> j = c \<and> val c \<noteq> 0 then val c else getElement R0 i j)"
  proof (cases "val c = 0")
    case True
    then show ?thesis using that [of R0] by simp
  next
    case False
    from Cons.prems have "0 \<le> c" "c < cols R0" by auto
    then obtain R1 where s: "setElement R0 rowA c (val c) = Inr R1"
      using Cons.prems(1,2) by (simp add: setElement_Inr)
    show ?thesis
      using that [of R1] s False setElement_dims [OF s] setElement_get [OF s] by simp
  qed
  have "\<forall>j\<in>set js. 0 \<le> j \<and> j < cols R1" using Cons.prems(3) dims by simp
  with Cons.IH [of R1] Cons.prems(1,2) dims obtain R where R:
    "for_each ?body js R1 = Inr R" "rows R = rows R1" "cols R = cols R1"
    "\<forall>i j. getElement R i j =
        (if i = rowA \<and> j \<in> set js \<and> val j \<noteq> 0 then val j else getElement R1 i j)"
    by auto
  have "for_each ?body (c # js) R0 = Inr R" using step R(1) by simp
  moreover have "\<forall>i j. getElement R i j =
      (if i = rowA \<and> j \<in> set (c # js) \<and> val j \<noteq> 0 then val j else getElement R0 i j)"
    using R(4) get1 by auto
  ultimately show ?case using R(2,3) dims by auto
qed

lemma row_loop:
  assumes "distinct (map fst ts)" "\<forall>t\<in>set ts. 0 \<le> fst t \<and> fst t < rows R0"
    and "\<forall>j\<in>set js. 0 \<le> j \<and> j < cols R0"
  shows "\<exists>R. for_each (\<lambda>(rowA, colsA) result.
                 for_each (\<lambda>colB result.
                     let sum = val rowA colsA colB
                     in if sum \<noteq> 0 then setElement result rowA colB sum else Inr result)
                   js result) ts R0 = Inr R
           \<and> rows R = rows R0 \<and> cols R = cols R0
           \<and> (\<forall>i j. getElement R i j =
                 (case map_of ts i of
                    Some colsA \<Rightarrow> (if j \<in> set js \<and> val i colsA j \<noteq> 0 then val i colsA j
                                   else getElement R0 i j)
                  | None \<Rightarrow> getElement R0 i j))"
  using assms
proof (induction ts arbitrary: R0)
  case Nil
  then show ?case by simp
next
  case (Cons t ts)
  obtain rowA colsA where t: "t = (rowA, colsA)" by (metis prod.exhaust)
  let ?inner = "\<lambda>rowA colsA result.
      for_each (\<lambda>colB result.
          let sum = val rowA colsA colB
          in if sum \<noteq> 0 then setElement result rowA colB sum else Inr result) js result"
  from Cons.prems(2) t have rng: "0 \<le> rowA" "rowA < rows R0" by auto
  from cell_loop [OF rng Cons.prems(3), of "val rowA colsA"] obtain R1 where R1:
    "?inner rowA colsA R0 = Inr R1" "rows R1 = rows R0" "cols R1 = cols R0"
    "\<forall>i j. getElement R1 i j =
       (if i = rowA \<and> j \<in> set js \<and> val rowA colsA j \<noteq> 0 then val rowA colsA j
        else getElement R0 i j)"
    by blast
  have "distinct (map fst ts)" using Cons.prems(1) by simp
  moreover have "\<forall>t\<in>set ts. 0 \<le> fst t \<and> fst t < rows R1" using Cons.prems(2) R1(2) by simp
  moreover have "\<forall>j\<in>set js. 0 \<le> j \<and> j < cols R1" using Cons.prems(3) R1(3) by simp
  ultimately obtain R where R:
    "for_each (\<lambda>(rowA, colsA) result. ?inner rowA colsA result) ts R1 = Inr R"
    "rows R = rows R1" "cols R = cols R1"
    "\<forall>i j. getElement R i j =
       (case map_of ts i of
          Some colsA \<Rightarrow> (if j \<in> set js \<and> val i colsA j \<noteq> 0 then val i colsA j
                         else getElement R1 i j)
        | None \<Rightarrow> getElement R1 i j)"
    using Cons.IH [of R1] by blast
  have notin: "map_of ts rowA = None"
    using Cons.prems(1) t by (simp add: map_of_eq_None_iff)
  have "for_each (\<lambda>(rowA, colsA) result. ?inner rowA colsA result) (t # ts) R0 = Inr R"
    using R1(1) R(1) t by simp
  moreover have "getElement R i j =
       (case map_of (t # ts) i of
          Some colsA \<Rightarrow> (if j \<in> set js \<and> val i colsA j \<noteq> 0 then val i colsA j
                         else getElement R0 i j)
        | None \<Rightarrow> getElement R0 i j)" for i j
  proof (cases "i = rowA")
    case True
    then show ?thesis using R(4) R1(4) notin t by simp
  next
    case False
    then show ?thesis using R(4) R1(4) t by (simp split: option.splits)
  qed
  ultimately show ?case using R(2,3) R1(2,3) by auto
qed

lemma thisRowIndices_in_range:
  assumes "I2 A" "t \<in> set (thisRowIndices (elements A))"
  shows "0 \<le> fst t \<and> fst t < rows A"
proof -
  obtain r cs where t: "t = (r, cs)" by (metis prod.exhaust)
  have "map_of (thisRowIndices (elements A)) r = Some cs"
    using assms(2) t thisRowIndices_distinct by simp
  then have "cols_in_row (elements A) r \<noteq> []"
    by (auto simp: thisRowIndices_map_of split: if_splits)
  then obtain c where "c \<in> set (cols_in_row (elements A) r)"
    by (meson last_in_set)
  then have "(r, c) \<in> fst ` set (elements A)" by (simp add: set_cols_in_row)
  then show ?thesis using assms(1) t by (auto dest: I2_D)
qed

lemma multiply_cells:
  assumes A: "I2 A" and dims: "cols A = rows B"
  shows "\<exists>R. multiply A B = Inr R \<and> rows R = rows A \<and> cols R = cols B
           \<and> (\<forall>i j. getElement R i j = cell_sum A B i j)"
proof -
  let ?R0 = "new_matrix (rows A) (cols B)"
  let ?val = "multiply_cell A B (otherColIndices (elements B))"
  have "distinct (map fst (thisRowIndices (elements A)))" by (rule thisRowIndices_distinct)
  moreover have "\<forall>t\<in>set (thisRowIndices (elements A)). 0 \<le> fst t \<and> fst t < rows ?R0"
    using thisRowIndices_in_range [OF A(1)] by simp
  moreover have "\<forall>j\<in>set [0..cols B - 1]. 0 \<le> j \<and> j < cols ?R0" by simp
  ultimately obtain R where R:
    "for_each (\<lambda>(rowA, colsA) result.
         for_each (\<lambda>colB result.
             let sum = ?val rowA colsA colB
             in if sum \<noteq> 0 then setElement result rowA colB sum else Inr result)
           [0..cols B - 1] result) (thisRowIndices (elements A)) ?R0 = Inr R"
    "rows R = rows ?R0" "cols R = cols ?R0"
    "\<forall>i j. getElement R i j =
       (case map_of (thisRowIndices (elements A)) i of
          Some colsA \<Rightarrow> (if j \<in> set [0..cols B - 1] \<and> ?val i colsA j \<noteq> 0 then ?val i colsA j
                         else getElement ?R0 i j)
        | None \<Rightarrow> getElement ?R0 i j)"
    using row_loop [of "thisRowIndices (elements A)" ?R0 "[0..cols B - 1]" ?val] by blast
  have "multiply A B = Inr R" using dims R(1) by (simp add: multiply_def)
  moreover have "getElement R i j = cell_sum A B i j" for i j
  proof (cases "cols_in_row (elements A) i = []")
    case True
    then show ?thesis
      using R(4) by (simp add: thisRowIndices_map_of cell_sum_def)
  next
    case False
    then show ?thesis
      using R(4) by (auto simp: thisRowIndices_map_of cell_sum_def multiply_cell_fold)
  qed
  ultimately show ?thesis using R(2,3) by simp
qed

lemma for_each_nested_invariant:
  assumes "for_each (\<lambda>x s. for_each (g x) ys s) xs s = Inr s'" and "P s"
    and "\<And>x y t t'. P t \<Longrightarrow> g x y t = Inr t' \<Longrightarrow> P t'"
  shows "P s'"
proof (rule for_each_invariant [where P = P, OF assms(1,2)])
  fix x t t'
  assume "P t" and "for_each (g x) ys t = Inr t'"
  then show "P t'"
    using assms(3) for_each_invariant [where P = P and f = "g x" and xs = ys and s = t] by blast
qed

lemma multiply_I1: "multiply A B = Inr R \<Longrightarrow> I1 R"
proof -
  assume m: "multiply A B = Inr R"
  let ?g = "\<lambda>(t :: int \<times> int list) colB result.
      let sum = multiply_cell A B (otherColIndices (elements B)) (fst t) (snd t) colB
      in if sum \<noteq> 0 then setElement result (fst t) colB sum else Inr result"
  have "for_each (\<lambda>t s. for_each (?g t) [0..cols B - 1] s)
          (thisRowIndices (elements A)) (new_matrix (rows A) (cols B)) = Inr R"
    using m by (simp add: multiply_def case_prod_unfold split: if_splits)
  moreover have "I1 (new_matrix (rows A) (cols B))" by (simp add: I1_def)
  moreover have "I1 t \<Longrightarrow> ?g x y t = Inr t' \<Longrightarrow> I1 t'" for x y t t'
    by (auto simp: Let_def split: if_splits dest: setElement_I1)
  ultimately show "I1 R" by (rule for_each_nested_invariant)
qed

lemma I1_zero_absent:
  assumes "I1 m" "getElement m i j = 0"
  shows "(i, j) \<notin> fst ` set (elements m)"
proof
  assume "(i, j) \<in> fst ` set (elements m)"
  then obtain v where v: "map_of (elements m) (i, j) = Some v"
    by (metis map_of_eq_None_iff not_Some_eq)
  then have "((i, j), v) \<in> set (elements m)" by (rule map_of_SomeD)
  then have "v \<noteq> 0" using assms(1) by (rule I1_D [rotated])
  then show False using assms(2) v by (simp add: getElement_map_of)
qed

lemma multiply_fixture:
  "multiply matrixA matrixB = Inr \<lparr>rows = 2, cols = 2, elements = [((0, 0), 2), ((1, 0), 12)]\<rparr>"
  by code_simp

text \<open>
  C1, as stated, fails: the value that \<open>multiply\<close> stores is a sum of rounded products,
  itself rounded. For the \<open>1 x 1\<close> store that holds \<open>94906267\<close>, multiplied by itself,
  the result holds \<open>9007199515875288\<close>, and the product is \<open>9007199515875289\<close>.
\<close>

theorem C1_counterexample:
  "I2 (single 94906267) \<and> I3 (single 94906267) \<and> cols (single 94906267) = rows (single 94906267)
   \<and> multiply (single 94906267) (single 94906267) = Inr (single 9007199515875288)
   \<and> getElement (single 9007199515875288) 0 0 = 9007199515875288
   \<and> dot (single 94906267) (single 94906267) 0 0 = 9007199515875289"
proof -
  have "multiply (single 94906267) (single 94906267) = Inr (single 9007199515875288)"
    by code_simp
  moreover have "dot (single 94906267) (single 94906267) 0 0 = 9007199515875289"
    by code_simp
  ultimately show ?thesis by (simp add: single_def I2_def I3_def getElement_map_of)
qed

text \<open>
  C1, amended: \<open>multiply\<close> fails with the dimension error of multiplication unless
  \<open>A.cols = B.rows\<close>. On stores whose keys are in range (and \<open>A\<close>'s unique), with at
  most \<open>2 ^ 53\<close> columns in \<open>B\<close>, it then succeeds and the result is
  \<open>A.rows x B.cols\<close>. At every coordinate \<open>(i, j)\<close> at which the magnitudes of the
  products \<open>A(i,k) * B(k,j)\<close> add up to at most \<open>2 ^ 53\<close>, its value is the sum over \<open>k\<close>
  of \<open>A(i,k) * B(k,j)\<close>, and when that sum is 0 the coordinate is not a key of the
  result.
\<close>

theorem C1_multiply_is_matrix_product_up_to_2_53:
  "(cols A \<noteq> rows B \<longrightarrow>
      multiply A B = Inl (MultiplyDimensions (rows A) (cols A) (rows B) (cols B)))
   \<and> (I2 A \<and> I3 A \<and> I2 B \<and> cols A = rows B \<and> cols B \<le> 2 ^ 53 \<longrightarrow>
        (\<exists>R. multiply A B = Inr R \<and> rows R = rows A \<and> cols R = cols B
           \<and> (\<forall>i j. abs_dot A B i j \<le> 2 ^ 53 \<longrightarrow> getElement R i j = dot A B i j)
           \<and> (\<forall>i j. abs_dot A B i j \<le> 2 ^ 53 \<and> dot A B i j = 0 \<longrightarrow>
                 (i, j) \<notin> fst ` set (elements R))))"
proof (intro conjI impI)
  assume "cols A \<noteq> rows B"
  then show "multiply A B = Inl (MultiplyDimensions (rows A) (cols A) (rows B) (cols B))"
    by (simp add: multiply_def)
next
  assume h: "I2 A \<and> I3 A \<and> I2 B \<and> cols A = rows B \<and> cols B \<le> 2 ^ 53"
  then obtain R where R: "multiply A B = Inr R" "rows R = rows A" "cols R = cols B"
    "\<forall>i j. getElement R i j = cell_sum A B i j"
    using multiply_cells [of A B] by blast
  have ex: "getElement R i j = dot A B i j" if "abs_dot A B i j \<le> 2 ^ 53" for i j
    using R(4) h that cell_sum_dot [of A B i j] by simp
  have "I1 R" using R(1) by (rule multiply_I1)
  then have "(i, j) \<notin> fst ` set (elements R)"
    if "abs_dot A B i j \<le> 2 ^ 53 \<and> dot A B i j = 0" for i j
    using that ex [of i j] I1_zero_absent [of R i j] by simp
  with R(1-3) ex show "\<exists>R. multiply A B = Inr R \<and> rows R = rows A \<and> cols R = cols B
           \<and> (\<forall>i j. abs_dot A B i j \<le> 2 ^ 53 \<longrightarrow> getElement R i j = dot A B i j)
           \<and> (\<forall>i j. abs_dot A B i j \<le> 2 ^ 53 \<and> dot A B i j = 0 \<longrightarrow>
                 (i, j) \<notin> fst ` set (elements R))"
    by blast
qed

theorem C1_witness:
  "I2 matrixA \<and> I3 matrixA \<and> I2 matrixB \<and> cols matrixA = rows matrixB
   \<and> cols matrixB \<le> 2 ^ 53
   \<and> abs_dot matrixA matrixB 1 0 \<le> 2 ^ 53 \<and> abs_dot matrixA matrixB 0 1 \<le> 2 ^ 53
   \<and> dot matrixA matrixB 1 0 = 12 \<and> dot matrixA matrixB 0 1 = 0
   \<and> (\<exists>R. multiply matrixA matrixB = Inr R \<and> rows R = 2 \<and> cols R = 2
         \<and> getElement R 1 0 = 12 \<and> (0, 1) \<notin> fst ` set (elements R))
   \<and> cols (new_matrix 2 3) \<noteq> rows matrixB
   \<and> multiply (new_matrix 2 3) matrixB = Inl (MultiplyDimensions 2 3 2 2)"
proof -
  have hyp: "I2 matrixA \<and> I3 matrixA \<and> I2 matrixB \<and> cols matrixA = rows matrixB
      \<and> cols matrixB \<le> 2 ^ 53"
    by (simp add: I2_def I3_def matrixA_def matrixB_def)
  have v: "abs_dot matrixA matrixB 1 0 = 12" "abs_dot matrixA matrixB 0 1 = 0"
    "dot matrixA matrixB 1 0 = 12" "dot matrixA matrixB 0 1 = 0"
    by code_simp+
  have dims: "rows matrixA = 2" "cols matrixB = 2" "rows matrixB = 2" "cols matrixB = 2"
    by (simp_all add: matrixA_def matrixB_def)
  from C1_multiply_is_matrix_product_up_to_2_53 [of matrixA matrixB] hyp
  obtain R where R: "multiply matrixA matrixB = Inr R" "rows R = rows matrixA"
    "cols R = cols matrixB"
    "\<forall>i j. abs_dot matrixA matrixB i j \<le> 2 ^ 53 \<longrightarrow>
       getElement R i j = dot matrixA matrixB i j"
    "\<forall>i j. abs_dot matrixA matrixB i j \<le> 2 ^ 53 \<and> dot matrixA matrixB i j = 0 \<longrightarrow>
       (i, j) \<notin> fst ` set (elements R)"
    by blast
  have "getElement R 1 0 = 12" using R(4) [rule_format, of 1 0] v by simp
  moreover have "(0, 1) \<notin> fst ` set (elements R)" using R(5) [rule_format, of 0 1] v by simp
  ultimately show ?thesis
    using C1_multiply_is_matrix_product_up_to_2_53 [of "new_matrix 2 3" matrixB]
      hyp v dims R(1-3)
    by simp
qed

section \<open>The multiplication of the second class\<close>

lemma getElement2_map_of:
  "getElement2 m row col = (case map_of (data m) (row, col) of None \<Rightarrow> 0 | Some v \<Rightarrow> v)"
  by (auto simp: getElement2_def Map_has_def Map_get_def split: option.splits)

lemma getElement2_as_matrix2 [simp]: "getElement2 (as_matrix2 m) i j = getElement m i j"
  by (simp add: getElement2_map_of getElement_map_of as_matrix2_def)

lemma as_matrix2_sel [simp]:
  "data (as_matrix2 m) = elements m" "numRows (as_matrix2 m) = rows m"
  "numCols (as_matrix2 m) = cols m"
  by (simp_all add: as_matrix2_def)





















section \<open>Printing and loading\<close>

lemma split_not_Nil: "split sep s \<noteq> []"
  by (induction s) (auto split: list.splits)

lemma split_line:
  "sep \<notin> set l \<Longrightarrow> split sep (l @ sep # rest) = l # split sep rest"
  by (induction l) (auto split: list.splits simp: split_not_Nil)

lemma split_no_sep: "sep \<notin> set l \<Longrightarrow> split sep l = [l]"
  by (induction l) auto

lemma split_concat_lines:
  "\<forall>l\<in>set ls. sep \<notin> set l \<Longrightarrow> split sep (concat (map (\<lambda>l. l @ [sep]) ls)) = ls @ [[]]"
  by (induction ls) (simp_all add: split_line)

lemma trim_id:
  "s \<noteq> [] \<Longrightarrow> \<not> is_ws (hd s) \<Longrightarrow> \<not> is_ws (last s) \<Longrightarrow> trim s = s"
proof -
  assume s: "s \<noteq> []" and h: "\<not> is_ws (hd s)" and l: "\<not> is_ws (last s)"
  have "dropWhile is_ws s = s" using s h by (cases s) simp_all
  moreover have "dropWhile is_ws (rev s) = rev s"
    using s l by (cases "rev s") (simp_all add: last_rev [symmetric] hd_rev del: last_rev)
  ultimately show ?thesis by (simp add: trim_def)
qed

lemma trim_Nil [simp]: "trim [] = []"
  by (simp add: trim_def)

lemma digit_char_cases:
  "d < 10 \<Longrightarrow> d = 0 \<or> d = 1 \<or> d = 2 \<or> d = 3 \<or> d = 4 \<or> d = 5 \<or> d = 6 \<or> d = 7 \<or> d = 8 \<or> d = (9::nat)"
  by arith

lemma is_digit_digit_char: "d < 10 \<Longrightarrow> is_digit (digit_char d)"
  using digit_char_cases [of d] by (auto simp: is_digit_def digit_char_def)

lemma digit_of_digit_char: "d < 10 \<Longrightarrow> digit_of (digit_char d) = Some d"
  using digit_char_cases [of d] by (auto simp: digit_of_def digit_char_def)

lemma show_nat_digits: "c \<in> set (show_nat n) \<Longrightarrow> is_digit c"
proof (induction n rule: show_nat.induct)
  case (1 n)
  show ?case
  proof (cases "n < 10")
    case True
    with "1.prems" show ?thesis by (simp add: show_nat.simps [of n] is_digit_digit_char)
  next
    case False
    with "1.prems" "1.IH" show ?thesis
      by (auto simp: show_nat.simps [of n] is_digit_digit_char)
  qed
qed

lemma show_nat_not_Nil: "show_nat n \<noteq> []"
  by (subst show_nat.simps) simp

lemma is_digit_facts:
  "is_digit c \<Longrightarrow> \<not> is_ws c \<and> c \<noteq> CHR 0x0A \<and> c \<noteq> CHR ''-'' \<and> c \<noteq> CHR ''+''
     \<and> c \<noteq> CHR '','' \<and> c \<noteq> CHR '')'' \<and> c \<noteq> CHR ''('' \<and> c \<noteq> CHR ''=''"
  by (auto simp: is_digit_def is_ws_def)

lemma is_digit_radix: "is_digit c \<Longrightarrow> radix_digit 10 c"
  by (auto simp: is_digit_def radix_digit_def digit_of_def)

lemma digits_value_show_nat: "digits_value (show_nat n) = n"
proof (induction n rule: show_nat.induct)
  case (1 n)
  show ?case
  proof (cases "n < 10")
    case True
    then show ?thesis
      by (simp add: show_nat.simps [of n] digits_value_def digit_of_digit_char)
  next
    case False
    then have "digits_value (show_nat (n div 10)) = n div 10" using "1.IH" by simp
    with False show ?thesis
      by (simp add: show_nat.simps [of n] digits_value_def digit_of_digit_char)
  qed
qed

lemma parse_radix_digits:
  assumes "z \<noteq> []" "\<forall>c\<in>set z. is_digit c"
  shows "parse_radix 10 z = Some (int (digits_value z))"
proof -
  have "takeWhile (radix_digit 10) z = z"
    using assms(2) by (simp add: takeWhile_eq_all_conv is_digit_radix)
  then show ?thesis
    unfolding parse_radix_def digits_value_def Let_def using assms(1) by (simp only: if_False)
qed

lemma parseInt_digits:
  assumes "z \<noteq> []" "\<forall>c\<in>set z. is_digit c"
  shows "parseInt z (Some 10) = Some (round64 (int (digits_value z)))"
proof -
  have "is_digit (hd z)" using assms by simp
  then have h: "\<not> is_ws (hd z)" "hd z \<noteq> CHR ''-''" "hd z \<noteq> CHR ''+''"
    using is_digit_facts by blast+
  then have "dropWhile is_ws z = z" using assms(1) by (cases z) simp_all
  then show ?thesis
    using h assms by (simp add: parseInt_def parse_radix_digits)
qed

lemma parseInt_minus_digits:
  assumes "z \<noteq> []" "\<forall>c\<in>set z. is_digit c"
  shows "parseInt (CHR ''-'' # z) (Some 10) = Some (round64 (- int (digits_value z)))"
  using assms by (simp add: parseInt_def parse_radix_digits is_ws_def)

lemma parseInt_show_nat: "parseInt (show_nat n) (Some 10) = Some (round64 (int n))"
  using parseInt_digits [of "show_nat n"]
  by (simp add: show_nat_not_Nil show_nat_digits digits_value_show_nat)

lemma parseInt_show_int: "parseInt (show_int i) (Some 10) = Some (round64 i)"
proof (cases "i < 0")
  case True
  then show ?thesis
    using parseInt_minus_digits [of "show_nat (nat (- i))"]
    by (simp add: show_int_def show_nat_not_Nil show_nat_digits digits_value_show_nat)
next
  case False
  then show ?thesis by (simp add: show_int_def parseInt_show_nat)
qed

lemma number_text_exact: "\<bar>i\<bar> \<le> 2 ^ 53 \<Longrightarrow> number_text i = show_int i"
  by (auto simp: number_text_def show_number_def show_int_def)

lemma shortest_at_Some:
  "shortest_at x u = Some v \<Longrightarrow>
   round64 v = x \<and> (v = (x div u) * u \<or> v = (x div u) * u + u)"
  by (auto simp: shortest_at_def Let_def split: if_splits)

lemma round64_1e21: "round64 (10 ^ 21) = 10 ^ 21"
  by (simp add: round64_def round_at_def bits.simps Let_def)

lemma length_show_nat: "n < 10 ^ k \<Longrightarrow> 0 < k \<Longrightarrow> length (show_nat n) \<le> k"
proof (induction n arbitrary: k rule: show_nat.induct)
  case (1 n)
  show ?case
  proof (cases "n < 10")
    case True
    then show ?thesis using "1.prems" by (simp add: show_nat.simps [of n])
  next
    case False
    obtain k' where k: "k = Suc k'" using "1.prems"(2) by (cases k) simp_all
    have "n div 10 < 10 ^ k'" using "1.prems"(1) k by (simp add: div_less_iff_less_mult mult.commute)
    moreover have "0 < k'"
    proof (rule ccontr)
      assume "\<not> 0 < k'"
      then have "k = 1" using k by simp
      then show False using "1.prems"(1) False by simp
    qed
    ultimately have "length (show_nat (n div 10)) \<le> k'" using "1.IH" False by simp
    then show ?thesis using False k by (simp add: show_nat.simps [of n])
  qed
qed

lemma shortest_from_props:
  assumes "round64 x = x" "0 < x" "x < 10 ^ 21" "j \<le> 21"
  shows "round64 (shortest_from x j) = x \<and> 0 < shortest_from x j \<and> shortest_from x j < 10 ^ 21"
  using assms(4)
proof (induction j)
  case 0
  show ?case
  proof (cases "shortest_at x (10 ^ 0)")
    case None
    then show ?thesis using assms(1-3) by (simp add: shortest_from.simps [of x 0])
  next
    case (Some v)
    then have "shortest_at x 1 = Some v" by simp
    from shortest_at_Some [OF this] have v: "round64 v = x" "v = x \<or> v = x + 1" by simp_all
    have "0 < v" using v(1) assms(2) round64_sign [of v] by simp
    moreover have "v < 10 ^ 21"
    proof (rule ccontr)
      assume "\<not> v < 10 ^ 21"
      then have "v = 10 ^ 21" using v(2) assms(3) by auto
      then show False using v(1) round64_1e21 assms(3) by simp
    qed
    ultimately show ?thesis using Some v(1) by (simp add: shortest_from.simps [of x 0])
  qed
next
  case (Suc j)
  then have ih: "round64 (shortest_from x j) = x \<and> 0 < shortest_from x j
      \<and> shortest_from x j < 10 ^ 21" by simp
  show ?case
  proof (cases "shortest_at x (10 ^ Suc j)")
    case None
    then show ?thesis using ih by (simp add: shortest_from.simps [of x "Suc j"])
  next
    case (Some v)
    let ?u = "(10::int) ^ Suc j"
    from shortest_at_Some [OF Some] have v: "round64 v = x"
      "v = (x div ?u) * ?u \<or> v = (x div ?u) * ?u + ?u" by simp_all
    have pos: "0 < v" using v(1) assms(2) round64_sign [of v] by simp
    have up: "(0::int) < ?u" by simp
    obtain d where d: "21 = Suc j + d" using Suc.prems by (metis le_Suc_ex)
    have e21: "(10::int) ^ 21 = 10 ^ d * ?u" by (simp only: d power_add mult.commute)
    have lo: "(x div ?u) * ?u \<le> x"
      using div_mult_mod_eq [of x ?u] pos_mod_sign [OF up, of x] by linarith
    have "x div ?u < 10 ^ d"
    proof (rule ccontr)
      assume "\<not> x div ?u < 10 ^ d"
      then have "10 ^ d * ?u \<le> (x div ?u) * ?u" by (intro mult_right_mono) simp_all
      then show False using lo assms(3) e21 by linarith
    qed
    then have "x div ?u + 1 \<le> 10 ^ d" by simp
    then have "(x div ?u + 1) * ?u \<le> 10 ^ d * ?u" by (intro mult_right_mono) simp_all
    then have hi: "(x div ?u) * ?u + ?u \<le> 10 ^ 21" unfolding e21 by (simp add: algebra_simps)
    have "v < 10 ^ 21"
    proof (rule ccontr)
      assume "\<not> v < 10 ^ 21"
      then have "v = 10 ^ 21" using v(2) lo hi assms(3) by linarith
      then show False using v(1) round64_1e21 assms(3) by simp
    qed
    then show ?thesis using Some v(1) pos by (simp add: shortest_from.simps [of x "Suc j"])
  qed
qed

lemma shortest_props:
  assumes "round64 x = x" "0 < x" "x < 10 ^ 21"
  shows "round64 (shortest x) = x \<and> 0 < shortest x \<and> shortest x < 10 ^ 21"
proof -
  have "nat x < 10 ^ 21" using assms(2,3) by (simp add: nat_less_iff)
  then have "length (show_nat (nat x)) \<le> 21" by (rule length_show_nat) simp
  then show ?thesis unfolding shortest_def by (rule shortest_from_props [OF assms])
qed

lemma round64_plain:
  assumes "round64 n = n" "\<bar>n\<bar> < 10 ^ 21"
  shows "round64 (plain n) = n"
proof (cases "\<bar>n\<bar> \<le> 2 ^ 53")
  case True
  then show ?thesis using assms(1) by (simp add: plain_def)
next
  case False
  have d: "round64 \<bar>n\<bar> = \<bar>n\<bar>"
    using assms(1) round64_minus [of n] by (cases "n < 0") simp_all
  have "0 < \<bar>n\<bar>" using False by simp
  from shortest_props [OF d this assms(2)] have s: "round64 (shortest \<bar>n\<bar>) = \<bar>n\<bar>" by simp
  show ?thesis
  proof (cases "n < 0")
    case True
    then show ?thesis using False s by (simp add: plain_def round64_minus)
  next
    case neg: False
    then show ?thesis using False s by (simp add: plain_def)
  qed
qed

lemma number_text_plain:
  assumes "round64 n = n" "\<bar>n\<bar> < 10 ^ 21"
  shows "number_text n = show_int (plain n)"
proof (cases "\<bar>n\<bar> \<le> 2 ^ 53")
  case True
  then show ?thesis by (simp add: number_text_exact plain_def)
next
  case False
  have d: "round64 \<bar>n\<bar> = \<bar>n\<bar>"
    using assms(1) round64_minus [of n] by (cases "n < 0") simp_all
  have "0 < \<bar>n\<bar>" using False by simp
  from shortest_props [OF d this assms(2)]
  have s: "0 < shortest \<bar>n\<bar>" "shortest \<bar>n\<bar> < 10 ^ 21" by simp_all
  show ?thesis
  proof (cases "n < 0")
    case True
    then have "\<not> - n \<le> 2 ^ 53" using False by simp
    then show ?thesis
      using True False s
      by (simp add: number_text_def show_number_def plain_def show_int_def Let_def)
  next
    case neg: False
    then have "\<not> n \<le> 2 ^ 53" using False by simp
    then show ?thesis
      using neg False s
      by (simp add: number_text_def show_number_def plain_def show_int_def Let_def)
  qed
qed

lemma plain_nonneg: "round64 n = n \<Longrightarrow> 0 \<le> n \<Longrightarrow> n < 10 ^ 21 \<Longrightarrow> 0 \<le> plain n"
proof (cases "\<bar>n\<bar> \<le> 2 ^ 53")
  case True
  assume "0 \<le> n"
  with True show ?thesis by (simp add: plain_def)
next
  case False
  assume a: "round64 n = n" "0 \<le> n" "n < 10 ^ 21"
  then have "0 < n" using False by simp
  from shortest_props [OF a(1) this a(3)] have "0 < shortest n" by simp
  then show ?thesis using False a(2) by (simp add: plain_def)
qed

lemma skip_ws_Cons: "skip_ws (c # s) = (if is_ws c then skip_ws s else c # s)"
  by (simp add: skip_ws_def)

lemma skip_ws_Nil [simp]: "skip_ws [] = []"
  by (simp add: skip_ws_def)

lemma skip_ws_show_nat: "skip_ws (show_nat n @ rest) = show_nat n @ rest"
proof -
  obtain c cs where "show_nat n = c # cs" using show_nat_not_Nil [of n] by (cases "show_nat n") auto
  moreover from this have "\<not> is_ws c" using show_nat_digits [of c n] is_digit_facts by simp
  ultimately show ?thesis by (simp add: skip_ws_def)
qed

lemma digits_prefix:
  assumes "z \<noteq> []" "\<forall>c\<in>set z. is_digit c" "rest = [] \<or> \<not> is_digit (hd rest)"
  shows "digits (z @ rest) = Some (z, rest)"
proof -
  have t: "takeWhile is_digit rest = []" using assms(3) by (cases rest) auto
  have d: "dropWhile is_digit rest = rest" using assms(3) by (cases rest) auto
  have "takeWhile is_digit (z @ rest) = z" using assms(2) t by (simp add: takeWhile_append2)
  moreover have "dropWhile is_digit (z @ rest) = rest" using assms(2) d by (simp add: dropWhile_append2)
  ultimately show ?thesis using assms(1) by (simp add: digits_def)
qed

lemma digits_show_nat:
  "rest = [] \<or> \<not> is_digit (hd rest) \<Longrightarrow> digits (show_nat n @ rest) = Some (show_nat n, rest)"
  by (rule digits_prefix) (simp_all add: show_nat_not_Nil show_nat_digits)

lemma signed_digits_show_int:
  assumes "rest = [] \<or> \<not> is_digit (hd rest)"
  shows "signed_digits (show_int i @ rest) = Some (show_int i, rest)"
proof (cases "i < 0")
  case True
  then show ?thesis
    using digits_show_nat [OF assms, of "nat (- i)"] by (simp add: show_int_def signed_digits_def)
next
  case False
  obtain c cs where c: "show_nat (nat i) = c # cs"
    using show_nat_not_Nil [of "nat i"] by (cases "show_nat (nat i)") auto
  then have "c \<noteq> CHR ''-''" using show_nat_digits [of c "nat i"] is_digit_facts by simp
  then have "signed_digits (show_nat (nat i) @ rest) = digits (show_nat (nat i) @ rest)"
    using c by (simp add: signed_digits_def)
  then show ?thesis using False digits_show_nat [OF assms, of "nat i"] by (simp add: show_int_def)
qed

lemma match_header_printed:
  "name = ''rows'' \<or> name = ''cols'' \<Longrightarrow>
   match_header name (name @ ''='' @ show_nat n) = Some (show_nat n)"
  using skip_ws_show_nat [of n "[]"] digits_show_nat [of "[]" n]
  by (auto simp: match_header_def skip_ws_Cons is_ws_def)

lemma match_element_printed:
  assumes "0 \<le> r" "0 \<le> c"
  shows "match_element (entry_text ((r, c), v)) = Some (show_nat (nat r), show_nat (nat c), show_int v)"
proof -
  have 1: "digits (show_nat (nat r) @ '', '' @ show_nat (nat c) @ '', '' @ show_int v @ '')'')
      = Some (show_nat (nat r), '', '' @ show_nat (nat c) @ '', '' @ show_int v @ '')'')"
    by (rule digits_show_nat) (simp add: is_digit_def)
  have 2: "digits (show_nat (nat c) @ '', '' @ show_int v @ '')'')
      = Some (show_nat (nat c), '', '' @ show_int v @ '')'')"
    by (rule digits_show_nat) (simp add: is_digit_def)
  have 3: "signed_digits (show_int v @ '')'') = Some (show_int v, '')'')"
    by (rule signed_digits_show_int) (simp add: is_digit_def)
  have 4: "skip_ws (show_int v @ '')'') = show_int v @ '')''"
    using skip_ws_show_nat [of "nat v" "'')''"] skip_ws_show_nat [of "nat (- v)" "'')''"]
    by (simp add: show_int_def skip_ws_Cons is_ws_def)
  show ?thesis
    using assms 1 2 3 4
    by (simp add: match_element_def entry_text_def show_int_def [of r] show_int_def [of c]
        skip_ws_Cons skip_ws_show_nat is_ws_def)
qed

lemma show_int_chars: "c \<in> set (show_int i) \<Longrightarrow> is_digit c \<or> c = CHR ''-''"
  by (auto simp: show_int_def dest: show_nat_digits split: if_splits)

lemma show_int_no_newline: "CHR 0x0A \<notin> set (show_int i)"
  using show_int_chars [of "CHR 0x0A" i] by (auto simp: is_digit_def)

lemma show_int_last: "\<not> is_ws (last (show_int i))"
proof -
  have "show_int i \<noteq> []" by (simp add: show_int_def show_nat_not_Nil)
  then have "last (show_int i) \<in> set (show_int i)" by (rule last_in_set)
  then have "is_digit (last (show_int i)) \<or> last (show_int i) = CHR ''-''"
    by (rule show_int_chars)
  then show ?thesis
  proof
    assume "is_digit (last (show_int i))"
    then show ?thesis using is_digit_facts by blast
  next
    assume "last (show_int i) = CHR ''-''"
    then show ?thesis by (simp add: is_ws_def)
  qed
qed

lemma show_int_not_Nil: "show_int i \<noteq> []"
  by (simp add: show_int_def show_nat_not_Nil)

lemma printable_text: "printable n \<Longrightarrow> number_text n = show_int (plain n)"
  by (simp add: printable_def is_number_def number_text_plain)

lemma printable_round64: "printable n \<Longrightarrow> round64 (plain n) = n"
  by (simp add: printable_def is_number_def round64_plain)

lemma printable_nonneg: "printable n \<Longrightarrow> 0 \<le> n \<Longrightarrow> 0 \<le> plain n"
  by (simp add: printable_def is_number_def plain_nonneg)

lemma entry_line_text:
  "printable (fst (fst e)) \<Longrightarrow> printable (snd (fst e)) \<Longrightarrow> printable (snd e) \<Longrightarrow>
   entry_line e = entry_text (plain_entry e) @ [CHR 0x0A]"
  by (simp add: entry_line_def entry_text_def plain_entry_def printable_text)

lemma entry_text_no_newline: "CHR 0x0A \<notin> set (entry_text e)"
  by (simp add: entry_text_def show_int_no_newline)

lemma trim_entry_text: "trim (entry_text e) = entry_text e"
  by (rule trim_id) (simp_all add: entry_text_def is_ws_def)

lemma entry_text_not_Nil: "entry_text e \<noteq> []"
  by (simp add: entry_text_def)

lemma trim_header: "trim (''rows='' @ show_int n) = ''rows='' @ show_int n"
  "trim (''cols='' @ show_int n) = ''cols='' @ show_int n"
  using show_int_last [of n] show_int_not_Nil [of n]
  by (auto intro!: trim_id simp: is_ws_def)

lemma lines_clean:
  "\<forall>l\<in>set L. trim l = l \<and> l \<noteq> [] \<Longrightarrow>
   filter (\<lambda>line. length line > 0) (map trim (L @ [[]])) = L"
  by (induction L) auto

lemma set_insert_entry: "set (insert_entry x ys) = insert x (set ys)"
  by (induction ys) auto

lemma set_sort_entries: "set (sort_entries es) = set es"
  by (induction es) (simp_all add: sort_entries_def set_insert_entry)

lemma toString_lines:
  assumes "printable (rows m)" "printable (cols m)"
    and "\<forall>e\<in>set (elements m). printable (fst (fst e)) \<and> printable (snd (fst e))
           \<and> printable (snd e)"
  shows "filter (\<lambda>line. length line > 0) (map trim (split CHR 0x0A (toString m)))
     = (''rows='' @ show_int (plain (rows m))) # (''cols='' @ show_int (plain (cols m)))
         # map entry_text (map plain_entry (sort_entries (elements m)))"
proof -
  let ?es = "map plain_entry (sort_entries (elements m))"
  have "map entry_line (sort_entries (elements m))
      = map (\<lambda>e. entry_text (plain_entry e) @ [CHR 0x0A]) (sort_entries (elements m))"
    using assms(3) by (intro map_cong [OF refl] entry_line_text) (simp_all add: set_sort_entries)
  then have "map entry_line (sort_entries (elements m))
      = map (\<lambda>l. l @ [CHR 0x0A]) (map entry_text ?es)"
    by (simp add: comp_def)
  moreover have "split CHR 0x0A (concat (map (\<lambda>l. l @ [CHR 0x0A]) (map entry_text ?es)))
      = map entry_text ?es @ [[]]"
    by (rule split_concat_lines) (auto simp: entry_text_no_newline)
  ultimately have "split CHR 0x0A (concat (map entry_line (sort_entries (elements m))))
      = map entry_text ?es @ [[]]"
    by (simp only:)
  then have "split CHR 0x0A (toString m)
      = (''rows='' @ show_int (plain (rows m))) # (''cols='' @ show_int (plain (cols m)))
          # map entry_text ?es @ [[]]"
    using split_line [of "CHR 0x0A" "''rows='' @ show_int (plain (rows m))"]
      split_line [of "CHR 0x0A" "''cols='' @ show_int (plain (cols m))"] assms(1,2)
    by (simp add: toString_def show_int_no_newline printable_text)
  moreover have "filter (\<lambda>line. length line > 0) (map trim (map entry_text ?es @ [[]]))
      = map entry_text ?es"
    by (rule lines_clean) (auto simp: trim_entry_text entry_text_not_Nil)
  ultimately show ?thesis
    by (simp only: list.map filter.simps trim_header) simp
qed

lemma fold_Map_set_fresh:
  "distinct (map fst (acc @ es)) \<Longrightarrow>
   foldl (\<lambda>m e. Map_set m (fst e) (snd e)) acc es = acc @ es"
proof (induction es arbitrary: acc)
  case Nil
  then show ?case by simp
next
  case (Cons e es)
  have "fst e \<notin> fst ` set acc" using Cons.prems by auto
  then have "AList.update (fst e) (snd e) acc = acc @ [e]"
    by (induction acc) auto
  moreover have "distinct (map fst ((acc @ [e]) @ es))" using Cons.prems by simp
  ultimately show ?case using Cons.IH [of "acc @ [e]"] by (simp add: Map_set_def)
qed

lemma parseInt_plain_nat:
  "printable n \<Longrightarrow> 0 \<le> n \<Longrightarrow> parseInt (show_nat (nat (plain n))) (Some 10) = Some n"
  using printable_nonneg [of n] printable_round64 [of n] by (simp add: parseInt_show_nat)

lemma parseInt_plain_int:
  "printable n \<Longrightarrow> parseInt (show_int (plain n)) (Some 10) = Some n"
  using printable_round64 [of n] by (simp add: parseInt_show_int)

lemma load_lines_printed:
  assumes "\<forall>e\<in>set es. 0 \<le> fst (fst e) \<and> fst (fst e) < rows this
             \<and> 0 \<le> snd (fst e) \<and> snd (fst e) < cols this \<and> snd e \<noteq> 0
             \<and> printable (fst (fst e)) \<and> printable (snd (fst e)) \<and> printable (snd e)"
  shows "load_lines this i (map entry_text (map plain_entry es))
           = Inr (this\<lparr>elements := foldl (\<lambda>m e. Map_set m (fst e) (snd e)) (elements this) es\<rparr>)"
  using assms
proof (induction es arbitrary: this i)
  case Nil
  then show ?case by simp
next
  case (Cons e es)
  obtain r c v where e: "e = ((r, c), v)" by (metis prod.exhaust)
  from Cons.prems e have rng: "0 \<le> r" "r < rows this" "0 \<le> c" "c < cols this" "v \<noteq> 0"
    and pb: "printable r" "printable c" "printable v"
    by auto
  let ?m0' = "this\<lparr>elements := Map_set (elements this) (r, c) v\<rparr>"
  have pe: "plain_entry e = ((plain r, plain c), plain v)" by (simp add: plain_entry_def e)
  have m: "match_element (entry_text (plain_entry e))
      = Some (show_nat (nat (plain r)), show_nat (nat (plain c)), show_int (plain v))"
    unfolding pe using printable_nonneg [OF pb(1) rng(1)] printable_nonneg [OF pb(2) rng(3)]
    by (rule match_element_printed)
  have s: "setElement this r c v = Inr ?m0'"
    using rng by (simp add: setElement_Inr)
  have pr: "parseInt (show_nat (nat (plain r))) (Some 10) = Some r"
    "parseInt (show_nat (nat (plain c))) (Some 10) = Some c"
    "parseInt (show_int (plain v)) (Some 10) = Some v"
    using rng pb by (simp_all add: parseInt_plain_nat parseInt_plain_int)
  have "\<forall>e\<in>set es. 0 \<le> fst (fst e) \<and> fst (fst e) < rows ?m0'
             \<and> 0 \<le> snd (fst e) \<and> snd (fst e) < cols ?m0' \<and> snd e \<noteq> 0
             \<and> printable (fst (fst e)) \<and> printable (snd (fst e)) \<and> printable (snd e)"
    using Cons.prems by simp
  then have "load_lines ?m0' (i + 1) (map entry_text (map plain_entry es))
      = Inr (?m0'\<lparr>elements := foldl (\<lambda>m e. Map_set m (fst e) (snd e)) (elements ?m0') es\<rparr>)"
    by (rule Cons.IH)
  then show ?case
    using m s rng pr by (simp add: e)
qed

lemma distinct_insert_entry:
  "distinct (map fst (insert_entry x ys)) = (fst x \<notin> fst ` set ys \<and> distinct (map fst ys))"
  by (induction ys) (auto simp: set_insert_entry)

lemma distinct_sort_entries:
  "distinct (map fst (sort_entries es)) = distinct (map fst es)"
  by (induction es) (simp_all add: sort_entries_def distinct_insert_entry set_sort_entries
      [unfolded sort_entries_def])

lemma compare_entries_le: "compare_entries a b \<le> 0 \<longleftrightarrow> row_then_col a b"
  by (auto simp: compare_entries_def row_then_col_def js_sub_le_0_iff)

lemma sorted_insert_entry:
  "sorted_wrt row_then_col ys \<Longrightarrow> sorted_wrt row_then_col (insert_entry x ys)"
proof (induction ys)
  case Nil
  then show ?case by simp
next
  case (Cons y ys)
  show ?case
  proof (cases "compare_entries x y \<le> 0")
    case True
    then have xy: "row_then_col x y" by (simp add: compare_entries_le)
    have "row_then_col x z" if "z \<in> set ys" for z
      using xy Cons.prems that by (auto simp: row_then_col_def)
    then show ?thesis using True xy Cons.prems by auto
  next
    case False
    then have "row_then_col y x" by (auto simp: compare_entries_le row_then_col_def)
    then show ?thesis using False Cons by (auto simp: set_insert_entry)
  qed
qed

lemma sorted_sort_entries: "sorted_wrt row_then_col (sort_entries es)"
  by (induction es) (simp_all add: sort_entries_def sorted_insert_entry)

lemma load_toString:
  assumes "wf_matrix m" "numbers m" "0 \<le> rows m" "rows m < 10 ^ 21"
    "0 \<le> cols m" "cols m < 10 ^ 21"
    and "\<forall>e\<in>set (elements m). \<bar>snd e\<bar> < 10 ^ 21"
  shows "loadFromFile (Inr (toString m))
           = Inr \<lparr>rows = rows m, cols = cols m, elements = sort_entries (elements m)\<rparr>"
proof -
  let ?es = "sort_entries (elements m)"
  let ?m0 = "\<lparr>rows = rows m, cols = cols m, elements = []\<rparr>"
  have keys: "\<forall>e\<in>set (elements m). 0 \<le> fst (fst e) \<and> fst (fst e) < rows m
             \<and> 0 \<le> snd (fst e) \<and> snd (fst e) < cols m \<and> snd e \<noteq> 0"
    using assms(1) by (auto simp: wf_matrix_def I1_def I2_def list_all_iff)
  have pd: "printable (rows m)" "printable (cols m)"
    using assms(2-6) by (simp_all add: numbers_def printable_def)
  have pe: "\<forall>e\<in>set (elements m). printable (fst (fst e)) \<and> printable (snd (fst e))
           \<and> printable (snd e)"
  proof
    fix e assume e: "e \<in> set (elements m)"
    then have "0 \<le> fst (fst e)" "fst (fst e) < rows m" "0 \<le> snd (fst e)" "snd (fst e) < cols m"
      using keys by simp_all
    moreover have "is_number (fst (fst e))" "is_number (snd (fst e))" "is_number (snd e)"
      using assms(2) e by (auto simp: numbers_def list_all_iff)
    ultimately show "printable (fst (fst e)) \<and> printable (snd (fst e)) \<and> printable (snd e)"
      using assms(4,6,7) e by (simp add: printable_def)
  qed
  have lines: "filter (\<lambda>line. length line > 0) (map trim (split CHR 0x0A (toString m)))
      = (''rows='' @ show_int (plain (rows m))) # (''cols='' @ show_int (plain (cols m)))
          # map entry_text (map plain_entry ?es)"
    using pd pe by (rule toString_lines)
  have nn: "0 \<le> plain (rows m)" "0 \<le> plain (cols m)"
    using pd assms(3,5) by (simp_all add: printable_nonneg)
  have hr: "match_header ''rows'' (''rows='' @ show_int (plain (rows m)))
      = Some (show_nat (nat (plain (rows m))))"
    using nn(1) match_header_printed [of "''rows''" "nat (plain (rows m))"]
    by (simp add: show_int_def)
  have hc: "match_header ''cols'' (''cols='' @ show_int (plain (cols m)))
      = Some (show_nat (nat (plain (cols m))))"
    using nn(2) match_header_printed [of "''cols''" "nat (plain (cols m))"]
    by (simp add: show_int_def)
  have "\<forall>e\<in>set ?es. 0 \<le> fst (fst e) \<and> fst (fst e) < rows ?m0
             \<and> 0 \<le> snd (fst e) \<and> snd (fst e) < cols ?m0 \<and> snd e \<noteq> 0
             \<and> printable (fst (fst e)) \<and> printable (snd (fst e)) \<and> printable (snd e)"
    using keys pe by (simp add: set_sort_entries)
  then have "load_lines ?m0 2 (map entry_text (map plain_entry ?es))
      = Inr (?m0\<lparr>elements := foldl (\<lambda>m e. Map_set m (fst e) (snd e)) (elements ?m0) ?es\<rparr>)"
    by (rule load_lines_printed)
  moreover have "foldl (\<lambda>m e. Map_set m (fst e) (snd e)) [] ?es = [] @ ?es"
    using assms(1) by (intro fold_Map_set_fresh) (simp add: wf_matrix_def I3_def distinct_sort_entries)
  ultimately have ll: "load_lines ?m0 2 (map entry_text (map plain_entry ?es))
      = Inr \<lparr>rows = rows m, cols = cols m, elements = ?es\<rparr>"
    by simp
  have "load_text (toString m) = Inr \<lparr>rows = rows m, cols = cols m, elements = ?es\<rparr>"
    unfolding load_text_def lines using hr hc ll pd assms(3,5)
    by (simp add: parseInt_plain_nat del: append.simps)
  then show ?thesis by (simp add: loadFromFile_def)
qed

lemmas text_eval =
  text_lines_def trim_def is_ws_def is_digit_def skip_ws_def digits_def signed_digits_def
  match_header_def match_element_def parseInt_def parse_radix_def radix_digit_def digit_of_def
  triple_def in_bounds_def out_of_bounds_def round64_def

lemmas number_eval =
  number_text_def show_number_def exponent_text_def shortest_def shortest_from.simps
  shortest_at_def round64_def round_at_def bits.simps Let_def show_nat.simps digit_char_def

lemma number_text_1e21: "number_text 1000000000000000000000 = ''1e+21''"
  by (simp add: number_eval)

lemma round64_2_60: "round64 1152921504606846976 = 1152921504606846976"
  by (simp add: round64_def round_at_def bits.simps Let_def)

text \<open>
  C3, as stated, fails: \<open>toString\<close> prints a number of magnitude \<open>10 ^ 21\<close> or more with
  an exponent, which the expression for an entry line does not match. The \<open>1 x 1\<close>
  store that holds \<open>10 ^ 21\<close> satisfies the invariants; its text is
  \<open>rows=1 / cols=1 / (0, 0, 1e+21)\<close>, and loading that text fails with
  \<open>Input file has wrong format\<close> at line 3.
\<close>

theorem C3_counterexample:
  "wf_matrix (single 1000000000000000000000) \<and> numbers (single 1000000000000000000000)
   \<and> 0 \<le> rows (single 1000000000000000000000) \<and> 0 \<le> cols (single 1000000000000000000000)
   \<and> toString (single 1000000000000000000000) = ''rows=1\<newline>cols=1\<newline>(0, 0, 1e+21)\<newline>''
   \<and> loadFromFile (Inr (toString (single 1000000000000000000000)))
       = Inl ([LineParsingError 3 ''(0, 0, 1e+21)''], WrongFormat)"
proof -
  have small: "number_text 0 = ''0''" "number_text 1 = ''1''"
    by (simp_all add: number_text_exact show_int_def show_nat.simps digit_char_def)
  have t: "toString (single 1000000000000000000000) = ''rows=1\<newline>cols=1\<newline>(0, 0, 1e+21)\<newline>''"
    by (simp add: toString_def single_def sort_entries_def entry_line_def small number_text_1e21)
  have l: "loadFromFile (Inr ''rows=1\<newline>cols=1\<newline>(0, 0, 1e+21)\<newline>'')
       = Inl ([LineParsingError 3 ''(0, 0, 1e+21)''], WrongFormat)"
    by (simp add: loadFromFile_def load_text_def catch_load_def text_eval)
  have n: "numbers (single 1000000000000000000000)"
    using round64_1e21 by (simp add: numbers_def is_number_def single_def round64_small)
  show ?thesis
    unfolding t l using n by (simp add: wf_matrix_def I1_def I2_def I3_def single_def)
qed

text \<open>
  C3, amended: for every store of numbers that satisfies the invariants (no zero stored,
  keys in range, no key twice), with dimensions from 0 to below \<open>10 ^ 21\<close> and values of
  magnitude below \<open>10 ^ 21\<close>, loading the text that \<open>toString\<close> produces succeeds and
  yields a store with the same \<open>rows\<close> and \<open>cols\<close> and the same set of
  \<open>(row, col, value)\<close> entries, which satisfies the invariants again.
\<close>

theorem C3_round_trip_below_1e21:
  "wf_matrix S \<and> numbers S \<and> 0 \<le> rows S \<and> rows S < 10 ^ 21 \<and> 0 \<le> cols S \<and> cols S < 10 ^ 21
   \<and> (\<forall>e\<in>set (elements S). \<bar>snd e\<bar> < 10 ^ 21) \<longrightarrow>
     (\<exists>S'. loadFromFile (Inr (toString S)) = Inr S'
        \<and> rows S' = rows S \<and> cols S' = cols S
        \<and> set (elements S') = set (elements S)
        \<and> wf_matrix S')"
proof
  assume h: "wf_matrix S \<and> numbers S \<and> 0 \<le> rows S \<and> rows S < 10 ^ 21
   \<and> 0 \<le> cols S \<and> cols S < 10 ^ 21 \<and> (\<forall>e\<in>set (elements S). \<bar>snd e\<bar> < 10 ^ 21)"
  let ?S' = "\<lparr>rows = rows S, cols = cols S, elements = sort_entries (elements S)\<rparr>"
  have "loadFromFile (Inr (toString S)) = Inr ?S'" using h by (intro load_toString) simp_all
  moreover have "wf_matrix ?S'"
    using h by (simp add: wf_matrix_def I1_def I2_def I3_def list_all_iff set_sort_entries
        distinct_sort_entries)
  ultimately show "\<exists>S'. loadFromFile (Inr (toString S)) = Inr S'
        \<and> rows S' = rows S \<and> cols S' = cols S
        \<and> set (elements S') = set (elements S) \<and> wf_matrix S'"
    by (simp add: set_sort_entries)
qed

theorem C3_witness:
  "wf_matrix \<lparr>rows = 2, cols = 3, elements = [((1, 2), - 5), ((0, 1), 1152921504606846976)]\<rparr>
   \<and> numbers \<lparr>rows = 2, cols = 3, elements = [((1, 2), - 5), ((0, 1), 1152921504606846976)]\<rparr>
   \<and> (0::int) \<le> 2 \<and> (2::int) < 10 ^ 21 \<and> (0::int) \<le> 3 \<and> (3::int) < 10 ^ 21
   \<and> \<bar>- 5 :: int\<bar> < 10 ^ 21 \<and> \<bar>1152921504606846976 :: int\<bar> < 10 ^ 21
   \<and> (\<exists>S'. loadFromFile
              (Inr (toString
                 \<lparr>rows = 2, cols = 3, elements = [((1, 2), - 5), ((0, 1), 1152921504606846976)]\<rparr>))
            = Inr S'
         \<and> rows S' = 2 \<and> cols S' = 3
         \<and> set (elements S') = {((1, 2), - 5), ((0, 1), 1152921504606846976)}
         \<and> wf_matrix S')"
proof -
  let ?S = "\<lparr>rows = 2, cols = 3, elements = [((1, 2), - 5), ((0, 1), 1152921504606846976)]\<rparr>"
  have w: "wf_matrix ?S" by (simp add: wf_matrix_def I1_def I2_def I3_def)
  have n: "numbers ?S"
    using round64_2_60 by (simp add: numbers_def is_number_def round64_small)
  show ?thesis
    using C3_round_trip_below_1e21 [of ?S] w n by simp
qed

section \<open>The order of the output and the README example\<close>

lemma mset_insert_entry: "mset (insert_entry x ys) = add_mset x (mset ys)"
  by (induction ys) auto

lemma mset_sort_entries: "mset (sort_entries es) = mset es"
  by (induction es) (simp_all add: sort_entries_def mset_insert_entry)

lemma add_README:
  "add matrixA matrixB = Inr \<lparr>rows = 2, cols = 2, elements = [((0, 0), 3), ((1, 1), 3), ((1, 0), 4)]\<rparr>"
  by (simp add: add_def matrixA_def matrixB_def new_matrix_def setElement_def getElement_def
      Map_set_def Map_has_def Map_get_def getKey_def js_add_def round64_def)

lemma toString_sum:
  "toString \<lparr>rows = 2, cols = 2, elements = [((0, 0), 3), ((1, 1), 3), ((1, 0), 4)]\<rparr> = sum_output"
  by (simp add: toString_def sort_entries_def compare_entries_def entry_line_def
      number_text_exact show_int_def show_nat.simps digit_char_def sum_output_def
      js_sub_def round64_def)

text \<open>
  C4, as stated, fails: the sum of the two README matrices is not serialized to the text
  \<open>rows=2 / cols=2 / (0,0,3) / (1,0,4)\<close> that the README shows. \<open>toString\<close> writes a
  space after each comma and also the entry \<open>(1, 1, 3)\<close>.
\<close>

theorem C4_counterexample:
  "add matrixA matrixB
     = Inr \<lparr>rows = 2, cols = 2, elements = [((0, 0), 3), ((1, 1), 3), ((1, 0), 4)]\<rparr>
   \<and> toString \<lparr>rows = 2, cols = 2, elements = [((0, 0), 3), ((1, 1), 3), ((1, 0), 4)]\<rparr>
       \<noteq> readme_output"
  by (simp add: add_README toString_sum sum_output_def readme_output_def)

text \<open>
  C4, amended: the sum of the two README matrices is serialized to exactly
  \<open>rows=2 / cols=2 / (0, 0, 3) / (1, 0, 4) / (1, 1, 3)\<close>, each line ended by a line
  feed; and for every store the text is the header followed by the lines of the entries
  of the store, each once, in ascending order by row and then by column, whatever the
  order of the \<open>Map\<close>.
\<close>

theorem C4_sum_text_and_order:
  "(\<exists>R. add matrixA matrixB = Inr R \<and> toString R = sum_output)
   \<and> (\<exists>es. toString m = ''rows='' @ number_text (rows m) @ [CHR 0x0A]
                 @ ''cols='' @ number_text (cols m) @ [CHR 0x0A] @ concat (map entry_line es)
          \<and> mset es = mset (elements m) \<and> sorted_wrt row_then_col es)"
proof
  show "\<exists>R. add matrixA matrixB = Inr R \<and> toString R = sum_output"
    using add_README toString_sum by blast
  show "\<exists>es. toString m = ''rows='' @ number_text (rows m) @ [CHR 0x0A]
                 @ ''cols='' @ number_text (cols m) @ [CHR 0x0A] @ concat (map entry_line es)
          \<and> mset es = mset (elements m) \<and> sorted_wrt row_then_col es"
    using mset_sort_entries [of "elements m"] sorted_sort_entries [of "elements m"]
    by (intro exI [of _ "sort_entries (elements m)"]) (simp add: toString_def)
qed

theorem C4_witness:
  "\<exists>es. toString \<lparr>rows = 2, cols = 2, elements = [((1, 1), 3), ((0, 0), 3), ((1, 0), 4)]\<rparr>
           = ''rows='' @ number_text 2 @ [CHR 0x0A] @ ''cols='' @ number_text 2 @ [CHR 0x0A]
               @ concat (map entry_line es)
        \<and> mset es = mset [((1, 1), 3), ((0, 0), 3), ((1, 0), 4)]
        \<and> sorted_wrt row_then_col es"
  using C4_sum_text_and_order
    [of "\<lparr>rows = 2, cols = 2, elements = [((1, 1), 3), ((0, 0), 3), ((1, 0), 4)]\<rparr>"]
  by simp

section \<open>Entries out of bounds\<close>

lemma digits_Some:
  "digits s = Some (ds, r) \<Longrightarrow> ds \<noteq> [] \<and> (\<forall>c\<in>set ds. is_digit c)"
  by (auto simp: digits_def Let_def split: if_splits dest: set_takeWhileD)

lemma digits_parseInt:
  "digits s = Some (ds, r) \<Longrightarrow> parseInt ds (Some 10) = Some (round64 (int (digits_value ds)))"
  using digits_Some [of s ds r] parseInt_digits [of ds] by simp

lemma signed_digits_parseInt:
  "signed_digits s = Some (ds, r) \<Longrightarrow> parseInt ds (Some 10) \<noteq> None"
proof -
  assume a: "signed_digits s = Some (ds, r)"
  show ?thesis
  proof (cases s)
    case Nil
    with a show ?thesis by (simp add: signed_digits_def)
  next
    case (Cons c cs)
    show ?thesis
    proof (cases "c = CHR ''-''")
      case True
      with a Cons obtain z where z: "digits cs = Some (z, r)" "ds = CHR ''-'' # z"
        by (auto simp: signed_digits_def)
      then show ?thesis
        using digits_Some [of cs z r] parseInt_minus_digits [of z] by simp
    next
      case False
      with a Cons have "digits s = Some (ds, r)" by (simp add: signed_digits_def)
      then show ?thesis using digits_parseInt by simp
    qed
  qed
qed

lemma match_header_parseInt:
  "match_header name line = Some ds \<Longrightarrow>
   parseInt ds (Some 10) = Some (round64 (int (digits_value ds)))"
  by (auto simp: match_header_def Option.bind_eq_Some_conv split: if_splits dest: digits_parseInt)

lemma match_element_parseInt:
  "match_element line = Some (a, b, c) \<Longrightarrow>
   parseInt a (Some 10) \<noteq> None \<and> parseInt b (Some 10) \<noteq> None \<and> parseInt c (Some 10) \<noteq> None"
  by (auto simp: match_element_def Option.bind_eq_Some_conv split: if_splits
      dest: digits_parseInt signed_digits_parseInt)

lemma load_lines_step_in_bounds:
  assumes "in_bounds (rows this) (cols this) line"
  shows "\<exists>row col v this'. triple line = Some (row, col, v)
           \<and> setElement this row col v = Inr this'
           \<and> load_lines this i (line # rest) = load_lines this' (i + 1) rest"
proof -
  from assms obtain row col v where t: "triple line = Some (row, col, v)"
    and rng: "0 \<le> row" "row < rows this" "0 \<le> col" "col < cols this"
    by (auto simp: in_bounds_def split: option.splits)
  from t obtain a b c where m: "match_element line = Some (a, b, c)"
    and p: "row = the (parseInt a (Some 10))" "col = the (parseInt b (Some 10))"
      "v = the (parseInt c (Some 10))"
    by (auto simp: triple_def split: option.splits)
  from rng obtain this' where s: "setElement this row col v = Inr this'"
    by (simp add: setElement_Inr)
  have "load_lines this i (line # rest) = load_lines this' (i + 1) rest"
    using m p rng s match_element_parseInt [OF m] by (auto simp: Let_def)
  with t s show ?thesis by blast
qed





lemma load_text_header:
  assumes "text_lines content = l0 # l1 # ls"
    and "match_header ''rows'' l0 = Some rs" and "match_header ''cols'' l1 = Some cs"
  shows "load_text content
           = load_lines \<lparr>rows = the (parseInt rs (Some 10)), cols = the (parseInt cs (Some 10)),
                         elements = []\<rparr> 2 ls"
  using assms by (simp add: load_text_def text_lines_def Let_def)





section \<open>Duplicate coordinates\<close>

lemma last_value_Cons:
  "triple l = Some (row, col, v) \<Longrightarrow>
   last_value (l # ls) r c =
     (case last_value ls r c of
        Some v' \<Rightarrow> Some v'
      | None \<Rightarrow> if row = r \<and> col = c then Some v else None)"
  by (auto simp: last_value_def split: list.splits)

lemma load_lines_last_value:
  assumes "\<forall>l\<in>set ls. in_bounds (rows this) (cols this) l"
  shows "\<exists>m. load_lines this i ls = Inr m \<and> rows m = rows this \<and> cols m = cols this
           \<and> (I1 this \<longrightarrow> I1 m)
           \<and> (\<forall>r c. getElement m r c =
                 (case last_value ls r c of None \<Rightarrow> getElement this r c | Some v \<Rightarrow> v))"
  using assms
proof (induction ls arbitrary: this i)
  case Nil
  then show ?case by (simp add: last_value_def)
next
  case (Cons l ls)
  then obtain row col v this' where st: "triple l = Some (row, col, v)"
    "setElement this row col v = Inr this'"
    "load_lines this i (l # ls) = load_lines this' (i + 1) ls"
    using load_lines_step_in_bounds [of this l i ls] by auto
  have d: "rows this' = rows this" "cols this' = cols this"
    using setElement_dims [OF st(2)] by simp_all
  then have "\<forall>l\<in>set ls. in_bounds (rows this') (cols this') l" using Cons.prems by simp
  from Cons.IH [OF this, of "i + 1"] obtain m where m:
    "load_lines this' (i + 1) ls = Inr m" "rows m = rows this'" "cols m = cols this'"
    "I1 this' \<longrightarrow> I1 m"
    "\<forall>r c. getElement m r c =
       (case last_value ls r c of None \<Rightarrow> getElement this' r c | Some v \<Rightarrow> v)"
    by blast
  have "getElement m r c =
       (case last_value (l # ls) r c of None \<Rightarrow> getElement this r c | Some v \<Rightarrow> v)" for r c
    using m(5) setElement_get [OF st(2), of r c]
    by (auto simp: last_value_Cons [OF st(1)] split: option.splits)
  moreover have "I1 this \<longrightarrow> I1 m" using m(4) setElement_I1 [OF st(2)] by blast
  ultimately show ?case using m(1-3) st(3) d by simp
qed

text \<open>
  Duplicate coordinates in the first class: when the header matches and every entry line
  is a triple within bounds, \<open>loadFromFile\<close> succeeds, the value at every coordinate is
  the value of the last triple for it, and a coordinate whose last triple has the value
  0 is not a key of the store.
\<close>

lemma loadFromFile_last_value:
  assumes "text_lines content = l0 # l1 # ls"
    and "match_header ''rows'' l0 = Some rs" and "match_header ''cols'' l1 = Some cs"
    and "R = the (parseInt rs (Some 10))" and "C = the (parseInt cs (Some 10))"
    and "\<forall>l\<in>set ls. in_bounds R C l"
  shows "\<exists>m. loadFromFile (Inr content) = Inr m \<and> rows m = R \<and> cols m = C
           \<and> (\<forall>r c. getElement m r c = (case last_value ls r c of None \<Rightarrow> 0 | Some v \<Rightarrow> v))
           \<and> (\<forall>r c. last_value ls r c = Some 0 \<longrightarrow> (r, c) \<notin> fst ` set (elements m))"
proof -
  let ?m0 = "\<lparr>rows = R, cols = C, elements = []\<rparr>"
  have lt: "load_text content = load_lines ?m0 2 ls"
    using load_text_header [OF assms(1-3)] assms(4,5) by simp
  have "\<forall>l\<in>set ls. in_bounds (rows ?m0) (cols ?m0) l" using assms(6) by simp
  from load_lines_last_value [OF this, of 2] obtain m where m:
    "load_lines ?m0 2 ls = Inr m" "rows m = R" "cols m = C" "I1 ?m0 \<longrightarrow> I1 m"
    "\<forall>r c. getElement m r c =
       (case last_value ls r c of None \<Rightarrow> getElement ?m0 r c | Some v \<Rightarrow> v)"
    by auto
  have g: "getElement m r c = (case last_value ls r c of None \<Rightarrow> 0 | Some v \<Rightarrow> v)" for r c
    using m(5) by (simp add: getElement_map_of [of ?m0] split: option.splits)
  have "I1 m" using m(4) by (simp add: I1_def)
  then have "(r, c) \<notin> fst ` set (elements m)" if "last_value ls r c = Some 0" for r c
    using g [of r c] that I1_zero_absent [of m r c] by simp
  moreover have "loadFromFile (Inr content) = Inr m" using lt m(1) by (simp add: loadFromFile_def)
  ultimately show ?thesis using m(2,3) g by blast
qed

text \<open>
  C10 at the file \<open>rows=1 / cols=1 / (0,0,5) / (0,0,0)\<close>: the first class, which stores
  through \<open>setElement\<close>, ends with no entry at \<open>(0, 0)\<close>; the second class, which skips
  a zero value instead of storing it through \<open>setElement\<close>, still holds the value 5 of
  the earlier triple.
\<close>

theorem C10_second_class_keeps_overwritten_value:
  "loadFromFile (Inr overwritten_by_zero) = Inr \<lparr>rows = 1, cols = 1, elements = []\<rparr>
   \<and> loadFromFile2 (Inr overwritten_by_zero)
       = Inr \<lparr>data = [((0, 0), 5)], numRows = 1, numCols = 1\<rparr>
   \<and> getElement2 \<lparr>data = [((0, 0), 5)], numRows = 1, numCols = 1\<rparr> 0 0 = 5"
  by (simp add: overwritten_by_zero_def loadFromFile_def load_text_def catch_load_def
      loadFromFile2_def load_text2_def entry2_def startsWith_def endsWith_def text_eval
      setElement_def getKey_def Map_set_def Map_delete_def getElement2_def Map_has_def Map_get_def)

section \<open>No zero is stored\<close>

lemma load_lines_I1: "load_lines this i ls = Inr m \<Longrightarrow> I1 this \<Longrightarrow> I1 m"
proof (induction ls arbitrary: this i)
  case Nil
  then show ?case by simp
next
  case (Cons l ls)
  from Cons.prems(1) obtain row col v this' where
    "setElement this row col v = Inr this'" "load_lines this' (i + 1) ls = Inr m"
    by (auto simp: Let_def split: option.splits if_splits sum.splits)
  then show ?case using Cons.IH [of this' "i + 1"] Cons.prems(2) setElement_I1 by blast
qed

lemma loadFromFile_I1: "loadFromFile file = Inr m \<Longrightarrow> I1 m"
proof -
  assume a: "loadFromFile file = Inr m"
  then obtain content where "file = Inr content" and lt: "load_text content = Inr m"
    by (auto simp: loadFromFile_def split: sum.splits)
  from lt obtain this ls where "load_lines this 2 ls = Inr m" "elements this = []"
    by (auto simp: load_text_def Let_def split: if_splits)
  then show "I1 m" using load_lines_I1 [of this 2 ls m] by (simp add: I1_def)
qed

lemma pointwise_I1:
  assumes "for_each (\<lambda>((row, col), v) result. setElement result row col (f result row col v))
             es R0 = Inr R" "I1 R0"
  shows "I1 R"
  using assms(1,2)
  by (rule for_each_invariant) (auto dest: setElement_I1)

lemma add_I1: "add A B = Inr R \<Longrightarrow> I1 R"
proof -
  assume a: "add A B = Inr R"
  then obtain R' where
    1: "for_each (\<lambda>((row, col), v) result. setElement result row col v)
          (elements A) (new_matrix (rows A) (cols A)) = Inr R'"
    and 2: "for_each (\<lambda>((row, col), v) result.
          setElement result row col (js_add (getElement result row col) v)) (elements B) R' = Inr R"
    by (auto simp: add_def split: if_splits sum.splits)
  have "I1 (new_matrix (rows A) (cols A))" by (simp add: I1_def)
  with 1 have "I1 R'" by (rule pointwise_I1 [where f = "\<lambda>result row col v. v"])
  with 2 show "I1 R"
    by (rule pointwise_I1 [where f = "\<lambda>result row col v. js_add (getElement result row col) v"])
qed

lemma subtract_I1: "subtract A B = Inr R \<Longrightarrow> I1 R"
proof -
  assume a: "subtract A B = Inr R"
  then obtain R' where
    1: "for_each (\<lambda>((row, col), v) result. setElement result row col v)
          (elements A) (new_matrix (rows A) (cols A)) = Inr R'"
    and 2: "for_each (\<lambda>((row, col), v) result.
          setElement result row col (js_sub (getElement result row col) v)) (elements B) R' = Inr R"
    by (auto simp: subtract_def split: if_splits sum.splits)
  have "I1 (new_matrix (rows A) (cols A))" by (simp add: I1_def)
  with 1 have "I1 R'" by (rule pointwise_I1 [where f = "\<lambda>result row col v. v"])
  with 2 show "I1 R"
    by (rule pointwise_I1 [where f = "\<lambda>result row col v. js_sub (getElement result row col) v"])
qed

lemma length_delete_present:
  "distinct (map fst al) \<Longrightarrow> k \<in> fst ` set al \<Longrightarrow>
   length (AList.delete k al) + 1 = length al"
proof (induction al)
  case Nil
  then show ?case by simp
next
  case (Cons p al)
  show ?case
  proof (cases "fst p = k")
    case True
    then have "k \<notin> fst ` set al" using Cons.prems(1) by auto
    then show ?thesis using True by (cases p) (simp add: delete_id)
  next
    case False
    then show ?thesis using Cons by (cases p) auto
  qed
qed

lemma set_zero_removes:
  assumes "I2 m" "I3 m" "map_of (elements m) (r, c) = Some v"
  shows "\<exists>m'. setElement m r c 0 = Inr m'
           \<and> (r, c) \<notin> fst ` set (elements m')
           \<and> nonZeroCount m' + 1 = nonZeroCount m
           \<and> getElement m' r c = 0"
proof -
  have mem: "((r, c), v) \<in> set (elements m)" using assms(3) by (rule map_of_SomeD)
  then have rng: "0 \<le> r" "r < rows m" "0 \<le> c" "c < cols m"
    using assms(1) by (auto dest: I2_D)
  let ?m' = "m\<lparr>elements := Map_delete (elements m) (r, c)\<rparr>"
  have s: "setElement m r c 0 = Inr ?m'" using rng by (simp add: setElement_Inr)
  have "(r, c) \<notin> fst ` set (elements ?m')"
    by (simp add: Map_delete_def delete_notin_dom)
  moreover have "nonZeroCount ?m' + 1 = nonZeroCount m"
    using assms(2) mem length_delete_present [of "elements m" "(r, c)"]
    by (force simp: nonZeroCount_def Map_delete_def I3_def)
  moreover have "getElement ?m' r c = 0" using setElement_get [OF s, of r c] by simp
  ultimately show ?thesis using s by blast
qed

text \<open>
  C5: invariant I1 (every stored value is non-zero) is kept by \<open>setElement\<close>, and holds
  for every store that \<open>loadFromFile\<close>, \<open>add\<close>, \<open>subtract\<close> or \<open>multiply\<close> returns. On a
  store with keys in range and unique that holds a non-zero value at \<open>(r, c)\<close>,
  \<open>setElement(r, c, 0)\<close> succeeds and removes the entry: the key is gone, the number of
  entries went down by exactly one, and \<open>getElement(r, c)\<close> is 0.
\<close>

theorem C5_stored_values_are_non_zero:
  "(I1 m \<and> setElement m row col x = Inr m' \<longrightarrow> I1 m')
   \<and> (loadFromFile input = Inr L \<longrightarrow> I1 L)
   \<and> (add A B = Inr S \<longrightarrow> I1 S)
   \<and> (subtract A B = Inr D \<longrightarrow> I1 D)
   \<and> (multiply A B = Inr P \<longrightarrow> I1 P)
   \<and> (I2 n \<and> I3 n \<and> map_of (elements n) (r, c) = Some v \<and> v \<noteq> 0 \<longrightarrow>
        (\<exists>n'. setElement n r c 0 = Inr n'
           \<and> (r, c) \<notin> fst ` set (elements n')
           \<and> nonZeroCount n' + 1 = nonZeroCount n
           \<and> getElement n' r c = 0))"
  using setElement_I1 [of m row col x m'] loadFromFile_I1 [of input L] add_I1 [of A B S]
    subtract_I1 [of A B D] multiply_I1 [of A B P] set_zero_removes [of n r c v]
  by blast

lemma subtract_README:
  "subtract matrixA matrixB
     = Inr \<lparr>rows = 2, cols = 2, elements = [((0, 0), - 1), ((1, 1), 3), ((1, 0), - 4)]\<rparr>"
  by (simp add: subtract_def matrixA_def matrixB_def new_matrix_def setElement_def getElement_def
      Map_set_def Map_has_def Map_get_def getKey_def js_sub_def round64_def)

lemma load_matrixA:
  "loadFromFile (Inr ''rows=2\<newline>cols=2\<newline>(0,0,1)\<newline>(1,1,3)\<newline>'') = Inr matrixA"
  by (simp add: matrixA_def loadFromFile_def load_text_def text_eval setElement_def getKey_def
      Map_set_def)

theorem C5_witness:
  "I1 \<lparr>rows = 2, cols = 2, elements = [((0, 0), 1)]\<rparr>
   \<and> setElement \<lparr>rows = 2, cols = 2, elements = [((0, 0), 1)]\<rparr> 1 1 3 = Inr matrixA
   \<and> loadFromFile (Inr ''rows=2\<newline>cols=2\<newline>(0,0,1)\<newline>(1,1,3)\<newline>'') = Inr matrixA
   \<and> I1 matrixA
   \<and> add matrixA matrixB
       = Inr \<lparr>rows = 2, cols = 2, elements = [((0, 0), 3), ((1, 1), 3), ((1, 0), 4)]\<rparr>
   \<and> I1 \<lparr>rows = 2, cols = 2, elements = [((0, 0), 3), ((1, 1), 3), ((1, 0), 4)]\<rparr>
   \<and> subtract matrixA matrixB
       = Inr \<lparr>rows = 2, cols = 2, elements = [((0, 0), - 1), ((1, 1), 3), ((1, 0), - 4)]\<rparr>
   \<and> I1 \<lparr>rows = 2, cols = 2, elements = [((0, 0), - 1), ((1, 1), 3), ((1, 0), - 4)]\<rparr>
   \<and> multiply matrixA matrixB
       = Inr \<lparr>rows = 2, cols = 2, elements = [((0, 0), 2), ((1, 0), 12)]\<rparr>
   \<and> I1 \<lparr>rows = 2, cols = 2, elements = [((0, 0), 2), ((1, 0), 12)]\<rparr>
   \<and> I2 matrixA \<and> I3 matrixA \<and> map_of (elements matrixA) (1, 1) = Some 3
   \<and> (\<exists>n'. setElement matrixA 1 1 0 = Inr n'
         \<and> (1, 1) \<notin> fst ` set (elements n')
         \<and> nonZeroCount n' + 1 = nonZeroCount matrixA
         \<and> getElement n' 1 1 = 0)"
proof -
  have s: "setElement \<lparr>rows = 2, cols = 2, elements = [((0, 0), 1)]\<rparr> 1 1 3 = Inr matrixA"
    by (simp add: setElement_def matrixA_def getKey_def Map_set_def)
  have i: "I1 \<lparr>rows = 2, cols = 2, elements = [((0, 0), 1)]\<rparr>" by (simp add: I1_def)
  have h: "I2 matrixA" "I3 matrixA" "map_of (elements matrixA) (1, 1) = Some 3"
    by (simp_all add: I2_def I3_def matrixA_def)
  show ?thesis
    using C5_stored_values_are_non_zero
      [where m = "\<lparr>rows = 2, cols = 2, elements = [((0, 0), 1)]\<rparr>" and row = 1 and col = 1
        and x = 3 and m' = matrixA
        and input = "Inr ''rows=2\<newline>cols=2\<newline>(0,0,1)\<newline>(1,1,3)\<newline>''" and L = matrixA
        and A = matrixA and B = matrixB
        and S = "\<lparr>rows = 2, cols = 2, elements = [((0, 0), 3), ((1, 1), 3), ((1, 0), 4)]\<rparr>"
        and D = "\<lparr>rows = 2, cols = 2, elements = [((0, 0), - 1), ((1, 1), 3), ((1, 0), - 4)]\<rparr>"
        and P = "\<lparr>rows = 2, cols = 2, elements = [((0, 0), 2), ((1, 0), 12)]\<rparr>"
        and n = matrixA and r = 1 and c = 1 and v = 3]
      s i h add_README subtract_README multiply_fixture load_matrixA
    by simp
qed

section \<open>Operands are not mutated\<close>

lemma acts_onI:
  "c h = (h[r := m'], map_sum id (\<lambda>m. ()) (g (h ! r))) \<Longrightarrow> (\<And>m. g (h ! r) = Inr m \<Longrightarrow> m' = m)
   \<Longrightarrow> acts_on r c g h"
  by (auto simp: acts_on_def)

lemma heap_setElement_acts_on:
  "acts_on r (\<lambda>h. heap_setElement h r row col (val (h ! r)))
     (\<lambda>m. setElement m row col (val m)) h"
proof (cases "setElement (h ! r) row col (val (h ! r))")
  case (Inl e)
  then show ?thesis
    by (intro acts_onI [where m' = "h ! r"]) (simp_all add: heap_setElement_def)
next
  case (Inr m)
  then show ?thesis
    by (intro acts_onI [where m' = m]) (simp_all add: heap_setElement_def)
qed

lemma skip_acts_on: "acts_on r (\<lambda>h. (h, Inr ())) (\<lambda>m. Inr m) h"
  by (intro acts_onI [where m' = "h ! r"]) simp_all

lemma heap_loop_acts_on:
  assumes "r < length h"
    and "\<And>x h'. x \<in> set xs \<Longrightarrow> length h' = length h \<Longrightarrow> (\<forall>p. p \<noteq> r \<longrightarrow> h' ! p = h ! p)
           \<Longrightarrow> acts_on r (body x) (g x) h'"
  shows "acts_on r (heap_for_each body xs) (for_each g xs) h"
  using assms
proof (induction xs arbitrary: h)
  case Nil
  show ?case by (intro acts_onI [where m' = "h ! r"]) simp_all
next
  case (Cons x xs)
  have "acts_on r (body x) (g x) h" using Cons.prems(2) [of x h] by simp
  then obtain m1 where b: "body x h = (h[r := m1], map_sum id (\<lambda>m. ()) (g x (h ! r)))"
    and m1: "\<And>m. g x (h ! r) = Inr m \<Longrightarrow> m1 = m"
    by (auto simp: acts_on_def)
  show ?case
  proof (cases "g x (h ! r)")
    case (Inl e)
    then show ?thesis
      using b by (intro acts_onI [where m' = m1]) simp_all
  next
    case (Inr m)
    let ?h1 = "h[r := m]"
    have h1: "body x h = (?h1, Inr ())" using b m1 [OF Inr] Inr by simp
    have "r < length ?h1" using Cons.prems(1) by simp
    moreover have "acts_on r (body y) (g y) h'"
      if "y \<in> set xs" "length h' = length ?h1" "\<forall>p. p \<noteq> r \<longrightarrow> h' ! p = ?h1 ! p" for y h'
      using that Cons.prems(2) [of y h'] by simp
    ultimately have "acts_on r (heap_for_each body xs) (for_each g xs) ?h1"
      by (rule Cons.IH)
    then obtain m' where
      r: "heap_for_each body xs ?h1 = (?h1[r := m'], map_sum id (\<lambda>m. ()) (for_each g xs (?h1 ! r)))"
      and m': "\<And>k. for_each g xs (?h1 ! r) = Inr k \<Longrightarrow> m' = k"
      by (auto simp: acts_on_def)
    have at: "?h1 ! r = m" using Cons.prems(1) by simp
    show ?thesis
      using h1 r m' Inr at by (intro acts_onI [where m' = m']) simp_all
  qed
qed

lemma heap_two_loops:
  fixes f :: "int \<Rightarrow> int \<Rightarrow> int"
  assumes "this < length h" "other < length h"
  defines "L1 \<equiv> \<lambda>((row, col), v) h'. heap_setElement h' (length h) row col v"
    and "L2 \<equiv> \<lambda>((row, col), v) h'.
              let currentValue = heap_getElement h' (length h) row col
              in heap_setElement h' (length h) row col (f currentValue v)"
    and "G1 \<equiv> \<lambda>((row, col), v) result. setElement result row col v"
    and "G2 \<equiv> \<lambda>((row, col), v) result.
              let currentValue = getElement result row col
              in setElement result row col (f currentValue v)"
  shows "\<exists>m'. (case heap_for_each L1 (elements ((h @ [N]) ! this)) (h @ [N]) of
                 (h2, Inl e) \<Rightarrow> (h2, Inl e)
               | (h2, Inr u) \<Rightarrow>
                   (case heap_for_each L2 (elements (h2 ! other)) h2 of
                      (h3, Inl e) \<Rightarrow> (h3, Inl e)
                    | (h3, Inr u) \<Rightarrow> (h3, Inr (length h))))
             = (h @ [m'],
                map_sum id (\<lambda>R. length h)
                  (case for_each G1 (elements (h ! this)) N of
                     Inl e \<Rightarrow> Inl e
                   | Inr R' \<Rightarrow> for_each G2 (elements (h ! other)) R'))
           \<and> (\<forall>R. (case for_each G1 (elements (h ! this)) N of
                      Inl e \<Rightarrow> Inl e
                    | Inr R' \<Rightarrow> for_each G2 (elements (h ! other)) R') = Inr R \<longrightarrow> m' = R)"
proof -
  let ?h1 = "h @ [N]"
  let ?r = "length h"
  have r: "?r < length ?h1" by simp
  have at: "?h1 ! ?r = N" by simp
  have this1: "?h1 ! this = h ! this" using assms(1) by (simp add: nth_append)
  have upd: "?h1[?r := m] = h @ [m]" for m by simp
  have a1: "acts_on ?r (L1 x) (G1 x) h'" for x h'
    using heap_setElement_acts_on [of ?r _ _ "\<lambda>m. snd x" h']
    by (simp add: L1_def G1_def case_prod_unfold)
  have a2: "acts_on ?r (L2 x) (G2 x) h'" for x h'
    using heap_setElement_acts_on
      [of ?r "fst (fst x)" "snd (fst x)" "\<lambda>m. f (getElement m (fst (fst x)) (snd (fst x))) (snd x)" h']
    by (simp add: L2_def G2_def case_prod_unfold heap_getElement_def)
  have "acts_on ?r (heap_for_each L1 (elements (h ! this))) (for_each G1 (elements (h ! this))) ?h1"
    using r a1 by (intro heap_loop_acts_on) auto
  then obtain m1 where
    l1: "heap_for_each L1 (elements (h ! this)) ?h1
          = (h @ [m1], map_sum id (\<lambda>m. ()) (for_each G1 (elements (h ! this)) N))"
    and m1: "\<And>m. for_each G1 (elements (h ! this)) N = Inr m \<Longrightarrow> m1 = m"
    by (auto simp: acts_on_def)
  show ?thesis
  proof (cases "for_each G1 (elements (h ! this)) N")
    case (Inl e)
    then show ?thesis using l1 this1 by (intro exI [of _ m1]) simp
  next
    case (Inr R')
    let ?h2 = "h @ [R']"
    have l1': "heap_for_each L1 (elements (h ! this)) ?h1 = (?h2, Inr ())"
      using l1 m1 [OF Inr] Inr by simp
    have other2: "?h2 ! other = h ! other" using assms(2) by (simp add: nth_append)
    have "acts_on ?r (heap_for_each L2 (elements (h ! other))) (for_each G2 (elements (h ! other))) ?h2"
      using a2 by (intro heap_loop_acts_on) auto
    then obtain m2 where
      l2: "heap_for_each L2 (elements (h ! other)) ?h2
            = (h @ [m2], map_sum id (\<lambda>m. ()) (for_each G2 (elements (h ! other)) R'))"
      and m2: "\<And>m. for_each G2 (elements (h ! other)) R' = Inr m \<Longrightarrow> m2 = m"
      by (auto simp: acts_on_def)
    show ?thesis
    proof (cases "for_each G2 (elements (h ! other)) R'")
      case (Inl e)
      then show ?thesis
        using l1' l2 \<open>for_each G1 (elements (h ! this)) N = Inr R'\<close> this1 other2
        by (intro exI [of _ m2]) simp
    next
      case (Inr R)
      then show ?thesis
        using l1' l2 m2 [OF Inr] \<open>for_each G1 (elements (h ! this)) N = Inr R'\<close> this1 other2
        by (intro exI [of _ m2]) simp
    qed
  qed
qed

lemma heap_add_pure:
  assumes "this < length h" "other < length h"
  shows "\<exists>h'. heap_add h this other
                = (h', map_sum id (\<lambda>R. length h) (add (h ! this) (h ! other)))
           \<and> (h' = h \<or> (\<exists>m'. h' = h @ [m']))
           \<and> (\<forall>R. add (h ! this) (h ! other) = Inr R \<longrightarrow> h' = h @ [R])"
proof (cases "rows (h ! this) \<noteq> rows (h ! other) \<or> cols (h ! this) \<noteq> cols (h ! other)")
  case True
  then show ?thesis by (intro exI [of _ h]) (simp add: heap_add_def add_def)
next
  case False
  note two = heap_two_loops [OF assms, where N = "new_matrix (rows (h ! this)) (cols (h ! this))"
      and f = js_add]
  show ?thesis
    unfolding heap_add_def add_def heap_new_def if_not_P [OF False] prod.case
    using two by blast
qed

lemma heap_subtract_pure:
  assumes "this < length h" "other < length h"
  shows "\<exists>h'. heap_subtract h this other
                = (h', map_sum id (\<lambda>R. length h) (subtract (h ! this) (h ! other)))
           \<and> (h' = h \<or> (\<exists>m'. h' = h @ [m']))
           \<and> (\<forall>R. subtract (h ! this) (h ! other) = Inr R \<longrightarrow> h' = h @ [R])"
proof (cases "rows (h ! this) \<noteq> rows (h ! other) \<or> cols (h ! this) \<noteq> cols (h ! other)")
  case True
  then show ?thesis by (intro exI [of _ h]) (simp add: heap_subtract_def subtract_def)
next
  case False
  note two = heap_two_loops [OF assms, where N = "new_matrix (rows (h ! this)) (cols (h ! this))"
      and f = js_sub]
  show ?thesis
    unfolding heap_subtract_def subtract_def heap_new_def if_not_P [OF False] prod.case
    using two by blast
qed

lemma heap_multiply_pure:
  assumes "this < length h" "other < length h"
  shows "\<exists>h'. heap_multiply h this other
                = (h', map_sum id (\<lambda>R. length h) (multiply (h ! this) (h ! other)))
           \<and> (h' = h \<or> (\<exists>m'. h' = h @ [m']))
           \<and> (\<forall>R. multiply (h ! this) (h ! other) = Inr R \<longrightarrow> h' = h @ [R])"
proof (cases "cols (h ! this) \<noteq> rows (h ! other)")
  case True
  then show ?thesis by (intro exI [of _ h]) (simp add: heap_multiply_def multiply_def)
next
  case False
  let ?A = "h ! this" and ?B = "h ! other"
  let ?N = "new_matrix (rows ?A) (cols ?B)"
  let ?h1 = "h @ [?N]"
  let ?r = "length h"
  let ?oci = "otherColIndices (elements ?B)"
  let ?tri = "thisRowIndices (elements ?A)"
  let ?inner = "\<lambda>rowA colsA colB h'.
      if multiply_cell (h' ! this) (h' ! other) ?oci rowA colsA colB \<noteq> 0
      then heap_setElement h' ?r rowA colB
             (multiply_cell (h' ! this) (h' ! other) ?oci rowA colsA colB)
      else (h', Inr ())"
  let ?outer = "\<lambda>(rowA, colsA) h'.
      heap_for_each (?inner rowA colsA) [0..cols (h' ! other) - 1] h'"
  let ?g = "\<lambda>rowA colsA colB result.
      if multiply_cell ?A ?B ?oci rowA colsA colB \<noteq> 0
      then setElement result rowA colB (multiply_cell ?A ?B ?oci rowA colsA colB)
      else Inr result"
  let ?G = "\<lambda>(rowA, colsA) result. for_each (?g rowA colsA) [0..cols ?B - 1] result"
  have frame: "h' ! this = ?A \<and> h' ! other = ?B"
    if "length h' = length ?h1" "\<forall>p. p \<noteq> ?r \<longrightarrow> h' ! p = ?h1 ! p" for h'
    using that assms by (simp add: nth_append)
  have inner: "acts_on ?r (?inner rowA colsA colB) (?g rowA colsA colB) h'"
    if "length h' = length ?h1" "\<forall>p. p \<noteq> ?r \<longrightarrow> h' ! p = ?h1 ! p" for rowA colsA colB h'
  proof (cases "multiply_cell ?A ?B ?oci rowA colsA colB = 0")
    case True
    then show ?thesis
      using frame [OF that] skip_acts_on [of ?r h'] by (simp add: acts_on_def)
  next
    case False
    then show ?thesis
      using frame [OF that]
        heap_setElement_acts_on [of ?r rowA colB
          "\<lambda>m. multiply_cell ?A ?B ?oci rowA colsA colB" h']
      by (simp add: acts_on_def)
  qed
  have outer: "acts_on ?r (?outer x) (?G x) h'"
    if f: "length h' = length ?h1" "\<forall>p. p \<noteq> ?r \<longrightarrow> h' ! p = ?h1 ! p" for x h'
  proof -
    obtain rowA colsA where x: "x = (rowA, colsA)" by (metis prod.exhaust)
    have "acts_on ?r (heap_for_each (?inner rowA colsA) [0..cols ?B - 1])
            (for_each (?g rowA colsA) [0..cols ?B - 1]) h'"
    proof (rule heap_loop_acts_on)
      show "?r < length h'" using f(1) by simp
    next
      fix colB h''
      assume "length h'' = length h'" "\<forall>p. p \<noteq> ?r \<longrightarrow> h'' ! p = h' ! p"
      then have "length h'' = length ?h1" "\<forall>p. p \<noteq> ?r \<longrightarrow> h'' ! p = ?h1 ! p"
        using f by simp_all
      then show "acts_on ?r (?inner rowA colsA colB) (?g rowA colsA colB) h''" by (rule inner)
    qed
    then show ?thesis using frame [OF f] x by (simp add: acts_on_def)
  qed
  have "acts_on ?r (heap_for_each ?outer ?tri) (for_each ?G ?tri) ?h1"
  proof (rule heap_loop_acts_on)
    show "?r < length ?h1" by simp
  next
    fix x h'
    assume "length h' = length ?h1" "\<forall>p. p \<noteq> ?r \<longrightarrow> h' ! p = ?h1 ! p"
    then show "acts_on ?r (?outer x) (?G x) h'" by (rule outer)
  qed
  then obtain m' where
    l: "heap_for_each ?outer ?tri ?h1 = (h @ [m'], map_sum id (\<lambda>m. ()) (for_each ?G ?tri ?N))"
    and m': "\<And>m. for_each ?G ?tri ?N = Inr m \<Longrightarrow> m' = m"
    by (auto simp: acts_on_def)
  have this1: "?h1 ! this = ?A" "?h1 ! other = ?B" using assms by (simp_all add: nth_append)
  have hm: "heap_multiply h this other
      = (case heap_for_each ?outer ?tri ?h1 of
           (h2, Inl e) \<Rightarrow> (h2, Inl e) | (h2, Inr u) \<Rightarrow> (h2, Inr ?r))"
    unfolding heap_multiply_def heap_new_def if_not_P [OF False] prod.case Let_def this1 ..
  have pm: "multiply ?A ?B = for_each ?G ?tri ?N"
    unfolding multiply_def if_not_P [OF False] Let_def ..
  show ?thesis
  proof (cases "for_each ?G ?tri ?N")
    case (Inl e)
    then show ?thesis using hm pm l by (intro exI [of _ "h @ [m']"]) simp
  next
    case (Inr R)
    then show ?thesis using hm pm l m' [OF Inr] by (intro exI [of _ "h @ [m']"]) simp
  qed
qed



lemma frame_from_pure:
  assumes "\<exists>h'. run = (h', map_sum id (\<lambda>R. length h) res)
             \<and> (h' = h \<or> (\<exists>m'. h' = h @ [m']))
             \<and> (\<forall>R. res = Inr R \<longrightarrow> h' = h @ [R])"
  shows "(\<forall>p<length h. fst run ! p = h ! p)
       \<and> (\<forall>r. snd run = Inr r \<longrightarrow>
             r = length h \<and> r < length (fst run) \<and> res = Inr (fst run ! r))
       \<and> (\<forall>R. res = Inr R \<longrightarrow> run = (h @ [R], Inr (length h)))
       \<and> (\<forall>e. res = Inl e \<longrightarrow> snd run = Inl e)"
proof -
  from assms obtain h' where run: "run = (h', map_sum id (\<lambda>R. length h) res)"
    and h': "h' = h \<or> (\<exists>m'. h' = h @ [m'])"
    and ok: "\<forall>R. res = Inr R \<longrightarrow> h' = h @ [R]"
    by (elim exE conjE)
  have f: "fst run = h'" and s: "snd run = map_sum id (\<lambda>R. length h) res"
    using run by simp_all
  have 1: "\<forall>p<length h. h' ! p = h ! p"
  proof (intro allI impI)
    fix p assume "p < length h"
    then show "h' ! p = h ! p" using h' by (auto simp: nth_append)
  qed
  have 2: "r = length h \<and> r < length h' \<and> res = Inr (h' ! r)"
    if "map_sum id (\<lambda>R. length h) res = Inr r" for r
  proof (cases res)
    case (Inl e)
    then show ?thesis using that by simp
  next
    case (Inr R)
    then have "h' = h @ [R]" using ok by simp
    then show ?thesis using Inr that by auto
  qed
  have 3: "run = (h @ [R], Inr (length h))" if "res = Inr R" for R
    using that run ok by simp
  have 4: "map_sum id (\<lambda>R. length h) res = Inl e" if "res = Inl e" for e
    using that by simp
  show ?thesis unfolding f s using 1 2 3 4 by (intro conjI allI impI) auto
qed

lemma returns_from_pure:
  assumes "\<exists>h'. run = (h', map_sum id (\<lambda>R. length h) res)
             \<and> (h' = h \<or> (\<exists>m'. h' = h @ [m']))
             \<and> (\<forall>R. res = Inr R \<longrightarrow> h' = h @ [R])"
    and "\<exists>R. res = Inr R"
  shows "\<exists>R. run = (h @ [R], Inr (length h)) \<and> res = Inr R"
proof -
  from assms(2) obtain R where R: "res = Inr R" by (elim exE)
  from assms(1) obtain h' where run: "run = (h', map_sum id (\<lambda>R. length h) res)"
    and ok: "\<forall>R. res = Inr R \<longrightarrow> h' = h @ [R]"
    by (elim exE conjE)
  have "run = (h @ [R], Inr (length h))" using run ok R by simp
  with R show ?thesis by (intro exI [of _ R] conjI)
qed

lemma heap_add_frame:
  assumes "this < length h" "other < length h"
  shows "(\<forall>p<length h. fst (heap_add h this other) ! p = h ! p)
      \<and> (\<forall>r. snd (heap_add h this other) = Inr r \<longrightarrow>
            r = length h \<and> r < length (fst (heap_add h this other))
            \<and> add (h ! this) (h ! other) = Inr (fst (heap_add h this other) ! r))
      \<and> (\<forall>R. add (h ! this) (h ! other) = Inr R \<longrightarrow>
            heap_add h this other = (h @ [R], Inr (length h)))
      \<and> (\<forall>e. add (h ! this) (h ! other) = Inl e \<longrightarrow> snd (heap_add h this other) = Inl e)"
  by (rule frame_from_pure [OF heap_add_pure [OF assms]])

lemma heap_subtract_frame:
  assumes "this < length h" "other < length h"
  shows "(\<forall>p<length h. fst (heap_subtract h this other) ! p = h ! p)
      \<and> (\<forall>r. snd (heap_subtract h this other) = Inr r \<longrightarrow>
            r = length h \<and> r < length (fst (heap_subtract h this other))
            \<and> subtract (h ! this) (h ! other) = Inr (fst (heap_subtract h this other) ! r))
      \<and> (\<forall>R. subtract (h ! this) (h ! other) = Inr R \<longrightarrow>
            heap_subtract h this other = (h @ [R], Inr (length h)))
      \<and> (\<forall>e. subtract (h ! this) (h ! other) = Inl e \<longrightarrow>
            snd (heap_subtract h this other) = Inl e)"
  by (rule frame_from_pure [OF heap_subtract_pure [OF assms]])

lemma heap_multiply_frame:
  assumes "this < length h" "other < length h"
  shows "(\<forall>p<length h. fst (heap_multiply h this other) ! p = h ! p)
      \<and> (\<forall>r. snd (heap_multiply h this other) = Inr r \<longrightarrow>
            r = length h \<and> r < length (fst (heap_multiply h this other))
            \<and> multiply (h ! this) (h ! other) = Inr (fst (heap_multiply h this other) ! r))
      \<and> (\<forall>R. multiply (h ! this) (h ! other) = Inr R \<longrightarrow>
            heap_multiply h this other = (h @ [R], Inr (length h)))
      \<and> (\<forall>e. multiply (h ! this) (h ! other) = Inl e \<longrightarrow>
            snd (heap_multiply h this other) = Inl e)"
  by (rule frame_from_pure [OF heap_multiply_pure [OF assms]])

lemma heap_add_returns:
  assumes "this < length h" "other < length h"
    and "I2 (h ! this) \<and> I3 (h ! this) \<and> I2 (h ! other) \<and> I3 (h ! other)
         \<and> rows (h ! this) = rows (h ! other) \<and> cols (h ! this) = cols (h ! other)"
  shows "\<exists>R. heap_add h this other = (h @ [R], Inr (length h))
           \<and> add (h ! this) (h ! other) = Inr R"
proof (rule returns_from_pure [OF heap_add_pure [OF assms(1,2)]])
  from assms(3) have "I2 (h ! this)" "I3 (h ! this)" "I2 (h ! other)" "I3 (h ! other)"
    "rows (h ! this) = rows (h ! other)" "cols (h ! this) = cols (h ! other)"
    by simp_all
  from add_pointwise [OF this] obtain R where "add (h ! this) (h ! other) = Inr R"
    by (elim exE conjE)
  then show "\<exists>R. add (h ! this) (h ! other) = Inr R" by (rule exI)
qed

lemma heap_subtract_returns:
  assumes "this < length h" "other < length h"
    and "I2 (h ! this) \<and> I3 (h ! this) \<and> I2 (h ! other) \<and> I3 (h ! other)
         \<and> rows (h ! this) = rows (h ! other) \<and> cols (h ! this) = cols (h ! other)"
  shows "\<exists>R. heap_subtract h this other = (h @ [R], Inr (length h))
           \<and> subtract (h ! this) (h ! other) = Inr R"
proof (rule returns_from_pure [OF heap_subtract_pure [OF assms(1,2)]])
  from assms(3) have "I2 (h ! this)" "I3 (h ! this)" "I2 (h ! other)" "I3 (h ! other)"
    "rows (h ! this) = rows (h ! other)" "cols (h ! this) = cols (h ! other)"
    by simp_all
  from subtract_pointwise [OF this] obtain R where "subtract (h ! this) (h ! other) = Inr R"
    by (elim exE conjE)
  then show "\<exists>R. subtract (h ! this) (h ! other) = Inr R" by (rule exI)
qed

lemma heap_multiply_returns:
  assumes "this < length h" "other < length h"
    and "I2 (h ! this) \<and> cols (h ! this) = rows (h ! other) \<and> cols (h ! other) \<le> 2 ^ 53"
  shows "\<exists>R. heap_multiply h this other = (h @ [R], Inr (length h))
           \<and> multiply (h ! this) (h ! other) = Inr R"
proof (rule returns_from_pure [OF heap_multiply_pure [OF assms(1,2)]])
  from assms(3) have "I2 (h ! this)" "cols (h ! this) = rows (h ! other)" by simp_all
  from multiply_cells [OF this] obtain R where "multiply (h ! this) (h ! other) = Inr R"
    by (elim exE conjE)
  then show "\<exists>R. multiply (h ! this) (h ! other) = Inr R" by (rule exI)
qed

text \<open>
  C8: for operands that are objects of the heap (the same object twice included),
  \<open>add\<close>, \<open>subtract\<close> and \<open>multiply\<close> leave every object the heap held before the call
  as it was, dimensions and entries, whether they return or throw. When they return,
  the result is a reference that did not exist before the call, to a new object that
  holds the store the method computes. They return, with exactly one new object on the
  heap, whenever the method computes a store, and throw the method's error otherwise.
  \<open>add\<close> and \<open>subtract\<close> do return on operands of equal dimensions whose keys are in
  range and unique, \<open>multiply\<close> on operands of compatible dimensions with the keys of the
  first in range and at most \<open>2 ^ 53\<close> columns in the second.
\<close>

theorem C8_operands_unchanged_result_fresh:
  "this < length h \<and> other < length h \<longrightarrow>
     ((\<forall>p<length h. fst (heap_add h this other) ! p = h ! p)
      \<and> (\<forall>r. snd (heap_add h this other) = Inr r \<longrightarrow>
            r = length h \<and> r < length (fst (heap_add h this other))
            \<and> add (h ! this) (h ! other) = Inr (fst (heap_add h this other) ! r))
      \<and> (\<forall>R. add (h ! this) (h ! other) = Inr R \<longrightarrow>
            heap_add h this other = (h @ [R], Inr (length h)))
      \<and> (\<forall>e. add (h ! this) (h ! other) = Inl e \<longrightarrow> snd (heap_add h this other) = Inl e))
   \<and> ((\<forall>p<length h. fst (heap_subtract h this other) ! p = h ! p)
      \<and> (\<forall>r. snd (heap_subtract h this other) = Inr r \<longrightarrow>
            r = length h \<and> r < length (fst (heap_subtract h this other))
            \<and> subtract (h ! this) (h ! other) = Inr (fst (heap_subtract h this other) ! r))
      \<and> (\<forall>R. subtract (h ! this) (h ! other) = Inr R \<longrightarrow>
            heap_subtract h this other = (h @ [R], Inr (length h)))
      \<and> (\<forall>e. subtract (h ! this) (h ! other) = Inl e \<longrightarrow>
            snd (heap_subtract h this other) = Inl e))
   \<and> ((\<forall>p<length h. fst (heap_multiply h this other) ! p = h ! p)
      \<and> (\<forall>r. snd (heap_multiply h this other) = Inr r \<longrightarrow>
            r = length h \<and> r < length (fst (heap_multiply h this other))
            \<and> multiply (h ! this) (h ! other) = Inr (fst (heap_multiply h this other) ! r))
      \<and> (\<forall>R. multiply (h ! this) (h ! other) = Inr R \<longrightarrow>
            heap_multiply h this other = (h @ [R], Inr (length h)))
      \<and> (\<forall>e. multiply (h ! this) (h ! other) = Inl e \<longrightarrow>
            snd (heap_multiply h this other) = Inl e))
   \<and> (I2 (h ! this) \<and> I3 (h ! this) \<and> I2 (h ! other) \<and> I3 (h ! other)
        \<and> rows (h ! this) = rows (h ! other) \<and> cols (h ! this) = cols (h ! other) \<longrightarrow>
        (\<exists>R. heap_add h this other = (h @ [R], Inr (length h))
           \<and> add (h ! this) (h ! other) = Inr R)
      \<and> (\<exists>R. heap_subtract h this other = (h @ [R], Inr (length h))
           \<and> subtract (h ! this) (h ! other) = Inr R))
   \<and> (I2 (h ! this) \<and> cols (h ! this) = rows (h ! other) \<and> cols (h ! other) \<le> 2 ^ 53 \<longrightarrow>
        (\<exists>R. heap_multiply h this other = (h @ [R], Inr (length h))
           \<and> multiply (h ! this) (h ! other) = Inr R))"
proof
  assume a: "this < length h \<and> other < length h"
  then have t: "this < length h" and o: "other < length h" by simp_all
  have ret: "I2 (h ! this) \<and> I3 (h ! this) \<and> I2 (h ! other) \<and> I3 (h ! other)
        \<and> rows (h ! this) = rows (h ! other) \<and> cols (h ! this) = cols (h ! other) \<longrightarrow>
        (\<exists>R. heap_add h this other = (h @ [R], Inr (length h))
           \<and> add (h ! this) (h ! other) = Inr R)
      \<and> (\<exists>R. heap_subtract h this other = (h @ [R], Inr (length h))
           \<and> subtract (h ! this) (h ! other) = Inr R)"
  proof
    assume c: "I2 (h ! this) \<and> I3 (h ! this) \<and> I2 (h ! other) \<and> I3 (h ! other)
        \<and> rows (h ! this) = rows (h ! other) \<and> cols (h ! this) = cols (h ! other)"
    show "(\<exists>R. heap_add h this other = (h @ [R], Inr (length h))
           \<and> add (h ! this) (h ! other) = Inr R)
      \<and> (\<exists>R. heap_subtract h this other = (h @ [R], Inr (length h))
           \<and> subtract (h ! this) (h ! other) = Inr R)"
      by (rule conjI [OF heap_add_returns [OF t o c] heap_subtract_returns [OF t o c]])
  qed
  have retm: "I2 (h ! this) \<and> cols (h ! this) = rows (h ! other) \<and> cols (h ! other) \<le> 2 ^ 53 \<longrightarrow>
        (\<exists>R. heap_multiply h this other = (h @ [R], Inr (length h))
           \<and> multiply (h ! this) (h ! other) = Inr R)"
  proof
    assume c: "I2 (h ! this) \<and> cols (h ! this) = rows (h ! other) \<and> cols (h ! other) \<le> 2 ^ 53"
    show "\<exists>R. heap_multiply h this other = (h @ [R], Inr (length h))
           \<and> multiply (h ! this) (h ! other) = Inr R"
      by (rule heap_multiply_returns [OF t o c])
  qed
  show "((\<forall>p<length h. fst (heap_add h this other) ! p = h ! p)
      \<and> (\<forall>r. snd (heap_add h this other) = Inr r \<longrightarrow>
            r = length h \<and> r < length (fst (heap_add h this other))
            \<and> add (h ! this) (h ! other) = Inr (fst (heap_add h this other) ! r))
      \<and> (\<forall>R. add (h ! this) (h ! other) = Inr R \<longrightarrow>
            heap_add h this other = (h @ [R], Inr (length h)))
      \<and> (\<forall>e. add (h ! this) (h ! other) = Inl e \<longrightarrow> snd (heap_add h this other) = Inl e))
   \<and> ((\<forall>p<length h. fst (heap_subtract h this other) ! p = h ! p)
      \<and> (\<forall>r. snd (heap_subtract h this other) = Inr r \<longrightarrow>
            r = length h \<and> r < length (fst (heap_subtract h this other))
            \<and> subtract (h ! this) (h ! other) = Inr (fst (heap_subtract h this other) ! r))
      \<and> (\<forall>R. subtract (h ! this) (h ! other) = Inr R \<longrightarrow>
            heap_subtract h this other = (h @ [R], Inr (length h)))
      \<and> (\<forall>e. subtract (h ! this) (h ! other) = Inl e \<longrightarrow>
            snd (heap_subtract h this other) = Inl e))
   \<and> ((\<forall>p<length h. fst (heap_multiply h this other) ! p = h ! p)
      \<and> (\<forall>r. snd (heap_multiply h this other) = Inr r \<longrightarrow>
            r = length h \<and> r < length (fst (heap_multiply h this other))
            \<and> multiply (h ! this) (h ! other) = Inr (fst (heap_multiply h this other) ! r))
      \<and> (\<forall>R. multiply (h ! this) (h ! other) = Inr R \<longrightarrow>
            heap_multiply h this other = (h @ [R], Inr (length h)))
      \<and> (\<forall>e. multiply (h ! this) (h ! other) = Inl e \<longrightarrow>
            snd (heap_multiply h this other) = Inl e))
   \<and> (I2 (h ! this) \<and> I3 (h ! this) \<and> I2 (h ! other) \<and> I3 (h ! other)
        \<and> rows (h ! this) = rows (h ! other) \<and> cols (h ! this) = cols (h ! other) \<longrightarrow>
        (\<exists>R. heap_add h this other = (h @ [R], Inr (length h))
           \<and> add (h ! this) (h ! other) = Inr R)
      \<and> (\<exists>R. heap_subtract h this other = (h @ [R], Inr (length h))
           \<and> subtract (h ! this) (h ! other) = Inr R))
   \<and> (I2 (h ! this) \<and> cols (h ! this) = rows (h ! other) \<and> cols (h ! other) \<le> 2 ^ 53 \<longrightarrow>
        (\<exists>R. heap_multiply h this other = (h @ [R], Inr (length h))
           \<and> multiply (h ! this) (h ! other) = Inr R))"
    by (rule conjI [OF heap_add_frame [OF t o]
          conjI [OF heap_subtract_frame [OF t o]
            conjI [OF heap_multiply_frame [OF t o] conjI [OF ret retm]]]])
qed

theorem C8_witness:
  "(0::nat) < length [matrixA, matrixB] \<and> (1::nat) < length [matrixA, matrixB]
   \<and> I2 matrixA \<and> I3 matrixA \<and> I2 matrixB \<and> I3 matrixB
   \<and> rows matrixA = rows matrixB \<and> cols matrixA = cols matrixB
   \<and> cols matrixA = rows matrixB \<and> cols matrixB \<le> 2 ^ 53
   \<and> heap_add [matrixA, matrixB] 0 1
       = ([matrixA, matrixB,
           \<lparr>rows = 2, cols = 2, elements = [((0, 0), 3), ((1, 1), 3), ((1, 0), 4)]\<rparr>], Inr 2)
   \<and> heap_subtract [matrixA, matrixB] 0 1
       = ([matrixA, matrixB,
           \<lparr>rows = 2, cols = 2, elements = [((0, 0), - 1), ((1, 1), 3), ((1, 0), - 4)]\<rparr>], Inr 2)
   \<and> heap_multiply [matrixA, matrixB] 0 1
       = ([matrixA, matrixB,
           \<lparr>rows = 2, cols = 2, elements = [((0, 0), 2), ((1, 0), 12)]\<rparr>], Inr 2)
   \<and> (\<exists>R. heap_add [matrixA, matrixB] 0 1 = ([matrixA, matrixB] @ [R], Inr 2))
   \<and> (\<exists>R. heap_subtract [matrixA, matrixB] 0 1 = ([matrixA, matrixB] @ [R], Inr 2))
   \<and> (\<exists>R. heap_multiply [matrixA, matrixB] 0 1 = ([matrixA, matrixB] @ [R], Inr 2))
   \<and> fst (heap_add [matrixA, matrixB] 0 1) ! 0 = matrixA
   \<and> fst (heap_add [matrixA, matrixB] 0 1) ! 1 = matrixB
   \<and> add matrixA (new_matrix 3 2) = Inl AddDimensions
   \<and> snd (heap_add [matrixA, new_matrix 3 2] 0 1) = Inl AddDimensions
   \<and> fst (heap_add [matrixA, new_matrix 3 2] 0 1) ! 0 = matrixA
   \<and> fst (heap_add [matrixA, new_matrix 3 2] 0 1) ! 1 = new_matrix 3 2"
proof -
  let ?h = "[matrixA, matrixB]"
  let ?g = "[matrixA, new_matrix 3 2]"
  have len: "(0::nat) < length ?h \<and> (1::nat) < length ?h" by simp
  have leng: "(0::nat) < length ?g \<and> (1::nat) < length ?g" by simp
  have hyp: "I2 matrixA \<and> I3 matrixA \<and> I2 matrixB \<and> I3 matrixB
      \<and> rows matrixA = rows matrixB \<and> cols matrixA = cols matrixB"
    by (simp add: I2_def I3_def matrixA_def matrixB_def)
  have hypm: "I2 matrixA \<and> cols matrixA = rows matrixB \<and> cols matrixB \<le> 2 ^ 53"
    by (simp add: I2_def matrixA_def matrixB_def)
  have at: "?h ! 0 = matrixA" "?h ! 1 = matrixB" "?g ! 0 = matrixA" "?g ! 1 = new_matrix 3 2"
    "length ?h = 2" "length ?g = 2"
    by simp_all
  note c = C8_operands_unchanged_result_fresh [of 0 ?h 1, THEN mp, OF len, unfolded at]
  note d = C8_operands_unchanged_result_fresh [of 0 ?g 1, THEN mp, OF leng, unfolded at]
  have mis: "add matrixA (new_matrix 3 2) = Inl AddDimensions"
    by (rule add_mismatch) (simp add: matrixA_def)
  note fa = c [THEN conjunct1, THEN conjunct1]
  note sa = c [THEN conjunct1, THEN conjunct2, THEN conjunct2, THEN conjunct1]
  note ss = c [THEN conjunct2, THEN conjunct1, THEN conjunct2, THEN conjunct2, THEN conjunct1]
  note sm = c [THEN conjunct2, THEN conjunct2, THEN conjunct1, THEN conjunct2, THEN conjunct2,
      THEN conjunct1]
  note ra = c [THEN conjunct2, THEN conjunct2, THEN conjunct2, THEN conjunct1]
  note rm = c [THEN conjunct2, THEN conjunct2, THEN conjunct2, THEN conjunct2]
  note fg = d [THEN conjunct1, THEN conjunct1]
  note eg = d [THEN conjunct1, THEN conjunct2, THEN conjunct2, THEN conjunct2]
  have 1: "heap_add ?h 0 1
       = ([matrixA, matrixB,
           \<lparr>rows = 2, cols = 2, elements = [((0, 0), 3), ((1, 1), 3), ((1, 0), 4)]\<rparr>], Inr 2)"
    using sa add_README by simp
  have 2: "heap_subtract ?h 0 1
       = ([matrixA, matrixB,
           \<lparr>rows = 2, cols = 2, elements = [((0, 0), - 1), ((1, 1), 3), ((1, 0), - 4)]\<rparr>], Inr 2)"
    using ss subtract_README by simp
  have 3: "heap_multiply ?h 0 1
       = ([matrixA, matrixB,
           \<lparr>rows = 2, cols = 2, elements = [((0, 0), 2), ((1, 0), 12)]\<rparr>], Inr 2)"
    using sm multiply_fixture by simp
  have 4: "(\<exists>R. heap_add ?h 0 1 = (?h @ [R], Inr 2))"
    "(\<exists>R. heap_subtract ?h 0 1 = (?h @ [R], Inr 2))"
    using ra hyp by blast+
  have 5: "(\<exists>R. heap_multiply ?h 0 1 = (?h @ [R], Inr 2))"
    using rm hypm by blast
  have 6: "fst (heap_add ?h 0 1) ! 0 = matrixA" "fst (heap_add ?h 0 1) ! 1 = matrixB"
    using fa by simp_all
  have 7: "snd (heap_add ?g 0 1) = Inl AddDimensions" using eg mis by simp
  have 8: "fst (heap_add ?g 0 1) ! 0 = matrixA" "fst (heap_add ?g 0 1) ! 1 = new_matrix 3 2"
    using fg by simp_all
  show ?thesis
    using len hyp hypm 1 2 3 4 5 6 7 8 mis by (intro conjI) (simp_all only: simp_thms)
qed

section \<open>The string keys\<close>

lemma show_nat_inject: "show_nat m = show_nat n \<Longrightarrow> m = n"
  by (metis digits_value_show_nat)

lemma show_nat_no_minus: "show_nat n \<noteq> CHR ''-'' # s"
proof
  assume "show_nat n = CHR ''-'' # s"
  then have "CHR ''-'' \<in> set (show_nat n)" by simp
  then have "is_digit CHR ''-''" by (rule show_nat_digits)
  then show False by (simp add: is_digit_def)
qed

lemma show_int_inject: "show_int i = show_int j \<Longrightarrow> i = j"
proof -
  assume a: "show_int i = show_int j"
  show "i = j"
  proof (cases "i < 0")
    case True
    show ?thesis
    proof (cases "j < 0")
      case jn: True
      with True a have "nat (- i) = nat (- j)" by (simp add: show_int_def show_nat_inject)
      with True jn show ?thesis by simp
    next
      case False
      with True a have "show_nat (nat j) = CHR ''-'' # show_nat (nat (- i))"
        by (simp add: show_int_def)
      then show ?thesis using show_nat_no_minus by blast
    qed
  next
    case False
    show ?thesis
    proof (cases "j < 0")
      case True
      with False a have "show_nat (nat i) = CHR ''-'' # show_nat (nat (- j))"
        by (simp add: show_int_def)
      then show ?thesis using show_nat_no_minus by blast
    next
      case jp: False
      with False a have "nat i = nat j" by (simp add: show_int_def show_nat_inject)
      with False jp show ?thesis by simp
    qed
  qed
qed

lemma show_int_no_comma: "CHR '','' \<notin> set (show_int i)"
  using show_int_chars [of "CHR '',''" i] by (auto simp: is_digit_def)

lemma key_string_split:
  assumes "printable row" "printable col"
  shows "split CHR '','' (key_string row col) = [show_int (plain row), show_int (plain col)]"
  using split_line [of "CHR '',''" "show_int (plain row)" "show_int (plain col)"]
    split_no_sep [of "CHR '',''" "show_int (plain col)"] assms
  by (simp add: key_string_def show_int_no_comma printable_text)

lemma key_string_parts:
  assumes "printable row" "printable col"
  shows "map (\<lambda>s. parseInt s (Some 10)) (split CHR '','' (key_string row col))
           = [Some row, Some col]"
  using assms by (simp add: key_string_split parseInt_plain_int)

lemma key_string_inject:
  assumes "printable r" "printable c" "printable r'" "printable c'"
  shows "key_string r c = key_string r' c' \<longleftrightarrow> getKey r c = getKey r' c'"
proof
  assume "key_string r c = key_string r' c'"
  then have "map (\<lambda>s. parseInt s (Some 10)) (split CHR '','' (key_string r c))
      = map (\<lambda>s. parseInt s (Some 10)) (split CHR '','' (key_string r' c'))"
    by simp
  then show "getKey r c = getKey r' c'"
    using assms by (simp add: key_string_parts getKey_def)
next
  assume "getKey r c = getKey r' c'"
  then show "key_string r c = key_string r' c'" by (simp add: getKey_def)
qed

end
